theory Spec2Isabelle
  imports Complex_Main "HOL-Library.Word" "HOL-Library.Sublist"
begin

section \<open>Audio capture and chunk assembly (capture\_and\_translate.py)\<close>

text \<open>
  The capture script keeps one sample buffer. Every frame taken from the queue is
  appended to it, and while the buffer holds at least \<open>CHUNK_SAMPLES\<close> samples the
  first \<open>CHUNK_SAMPLES\<close> of them are cut off as a chunk, sent to the translation
  service, and the counter \<open>chunk_idx\<close> is incremented. A sample is one row of the
  captured array; its type is left open.
\<close>

definition SAMPLE_RATE :: nat where
  "SAMPLE_RATE = 16000"

definition CHUNK_DURATION :: nat where
  "CHUNK_DURATION = 5"

definition CHUNK_SAMPLES :: nat where
  "CHUNK_SAMPLES = SAMPLE_RATE * CHUNK_DURATION"

text \<open>Any exception raised by the request to the translation service.\<close>

datatype api_error = ApiRequestError

text \<open>
  The state of the loop in \<open>main\<close>: the buffer, the counter, and what the loop has
  done so far: the chunks cut from the buffer (each with the value of \<open>chunk_idx\<close>
  it was sent under), the results printed, and the chunks whose request raised
  (for which only an error line is printed).
\<close>

record 'a capture_state =
  buffer :: "'a list"
  chunk_idx :: nat
  chunks :: "(nat \<times> 'a list) list"
  displayed :: "(nat \<times> string) list"
  api_errors :: "nat list"

definition initial_state :: "'a capture_state" where
  "initial_state = \<lparr>buffer = [], chunk_idx = 0, chunks = [], displayed = [], api_errors = []\<rparr>"

text \<open>Python's \<open>phrase in result\<close> on strings: \<open>phrase\<close> occurs as a contiguous part.\<close>

fun str_contains :: "string \<Rightarrow> string \<Rightarrow> bool" where
  "str_contains phrase [] = (phrase = [])"
| "str_contains phrase (c # cs) = (prefix phrase (c # cs) \<or> str_contains phrase cs)"

text \<open>
  \<open>should_display_result\<close>: an empty result is not shown, and neither is one that
  contains a filtered phrase. The source's list of filtered phrases holds one phrase
  in Arabic script; the list is a parameter here.
\<close>

definition should_display_result :: "string list \<Rightarrow> string \<Rightarrow> bool" where
  "should_display_result FILTERED_PHRASES result =
     (if result = [] then False
      else if list_ex (\<lambda>phrase. str_contains phrase result) FILTERED_PHRASES then False
      else True)"

text \<open>
  One pass of the inner loop: cut the chunk, send it, show the result if the request
  returned and the filter lets it through, note the failure if the request raised,
  and advance the counter in both cases. The request is a parameter: it is given the
  counter and the chunk and either raises or returns the translated text. The
  temporary file that carries the chunk to the service, the progress display and the
  pauses are left out: the state records only what the loop cuts, sends and shows.
\<close>

definition handle_chunk ::
  "nat \<Rightarrow> (nat \<Rightarrow> 'a list \<Rightarrow> api_error + string) \<Rightarrow> string list \<Rightarrow>
   'a capture_state \<Rightarrow> 'a capture_state" where
  "handle_chunk n predict FILTERED_PHRASES st =
     (let chunk = take n (buffer st);
          st1 = st\<lparr>buffer := drop n (buffer st),
                   chunks := chunks st @ [(chunk_idx st, chunk)]\<rparr>;
          st2 = (case predict (chunk_idx st) chunk of
                   Inr result \<Rightarrow>
                     if should_display_result FILTERED_PHRASES result
                     then st1\<lparr>displayed := displayed st1 @ [(chunk_idx st, result)]\<rparr>
                     else st1
                 | Inl e \<Rightarrow> st1\<lparr>api_errors := api_errors st1 @ [chunk_idx st]\<rparr>)
      in st2\<lparr>chunk_idx := chunk_idx st + 1\<rparr>)"

text \<open>
  The inner loop \<open>while len(buffer) >= CHUNK_SAMPLES\<close>. With a chunk length of 0 the
  loop would never end, so the result is optional: \<open>None\<close> stands for a loop that
  does not return.
\<close>

partial_function (option) process_complete_chunks ::
  "nat \<Rightarrow> (nat \<Rightarrow> 'a list \<Rightarrow> api_error + string) \<Rightarrow> string list \<Rightarrow>
   'a capture_state \<Rightarrow> 'a capture_state option" where
  "process_complete_chunks n predict FILTERED_PHRASES st =
     (if n \<le> length (buffer st)
      then process_complete_chunks n predict FILTERED_PHRASES
             (handle_chunk n predict FILTERED_PHRASES st)
      else Some st)"

text \<open>
  The outer loop, run on the frames that the queue delivers, in order: append the
  frame, then run the inner loop.
\<close>

fun main_loop ::
  "nat \<Rightarrow> (nat \<Rightarrow> 'a list \<Rightarrow> api_error + string) \<Rightarrow> string list \<Rightarrow>
   'a list list \<Rightarrow> 'a capture_state \<Rightarrow> 'a capture_state option" where
  "main_loop n predict FILTERED_PHRASES [] st = Some st"
| "main_loop n predict FILTERED_PHRASES (audio_chunk # q) st =
     (case process_complete_chunks n predict FILTERED_PHRASES
             (st\<lparr>buffer := buffer st @ audio_chunk\<rparr>) of
        None \<Rightarrow> None
      | Some st' \<Rightarrow> main_loop n predict FILTERED_PHRASES q st')"

text \<open>The script itself, with its own chunk length.\<close>

definition main ::
  "(nat \<Rightarrow> 'a list \<Rightarrow> api_error + string) \<Rightarrow> string list \<Rightarrow> 'a list list \<Rightarrow>
   'a capture_state option" where
  "main predict FILTERED_PHRASES q =
     main_loop CHUNK_SAMPLES predict FILTERED_PHRASES q initial_state"


subsection \<open>What one pass and one run of the inner loop do to the state\<close>

text \<open>
  \<open>assembled\<close> is the sample stream as the state holds it: the chunks cut so far,
  in the order they were cut, followed by the buffer. \<open>well_numbered\<close> says that
  the chunks carry the numbers 0, 1, 2, ... up to the counter, and that each has the
  full chunk length.
\<close>

definition assembled :: "'a capture_state \<Rightarrow> 'a list" where
  "assembled st = concat (map snd (chunks st)) @ buffer st"

definition well_numbered :: "nat \<Rightarrow> 'a capture_state \<Rightarrow> bool" where
  "well_numbered n st =
     (map fst (chunks st) = [0..<chunk_idx st] \<and> list_all (\<lambda>c. length (snd c) = n) (chunks st))"

lemma handle_chunk_buffer: "buffer (handle_chunk n p F st) = drop n (buffer st)"
  by (simp add: handle_chunk_def Let_def split: sum.splits)

lemma handle_chunk_chunks:
  "chunks (handle_chunk n p F st) = chunks st @ [(chunk_idx st, take n (buffer st))]"
  by (simp add: handle_chunk_def Let_def split: sum.splits)

lemma handle_chunk_idx: "chunk_idx (handle_chunk n p F st) = Suc (chunk_idx st)"
  by (simp add: handle_chunk_def Let_def split: sum.splits)

text \<open>
  The inner loop returns when the chunk length is positive. It keeps the assembled
  stream, leaves the buffer with its length modulo the chunk length, and keeps the
  numbering. The induction is on the length of the buffer, which every pass shortens.
\<close>

lemma process_complete_chunks_inv:
  assumes "0 < n"
  shows "\<exists>st'. process_complete_chunks n p F st = Some st' \<and> assembled st' = assembled st
     \<and> length (buffer st') = length (buffer st) mod n
     \<and> (well_numbered n st \<longrightarrow> well_numbered n st')"
proof (induction "length (buffer st)" arbitrary: st rule: less_induct)
  case less
  show ?case
  proof (cases "n \<le> length (buffer st)")
    case False
    then show ?thesis
      by (subst process_complete_chunks.simps) simp
  next
    case True
    let ?st1 = "handle_chunk n p F st"
    have len: "length (buffer ?st1) < length (buffer st)"
      using True assms by (simp add: handle_chunk_buffer)
    from less[OF len] obtain st' where
      st': "process_complete_chunks n p F ?st1 = Some st'" "assembled st' = assembled ?st1"
        "length (buffer st') = length (buffer ?st1) mod n"
        "well_numbered n ?st1 \<longrightarrow> well_numbered n st'"
      by blast
    have a: "assembled ?st1 = assembled st"
      by (simp add: assembled_def handle_chunk_buffer handle_chunk_chunks)
    have m: "length (buffer ?st1) mod n = length (buffer st) mod n"
      using True by (simp add: handle_chunk_buffer le_mod_geq)
    have w: "well_numbered n st \<Longrightarrow> well_numbered n ?st1"
      using True by (simp add: well_numbered_def handle_chunk_chunks handle_chunk_idx)
    have "process_complete_chunks n p F st = Some st'"
      using True st'(1) by (subst process_complete_chunks.simps) simp
    with st' a m w show ?thesis by auto
  qed
qed

text \<open>With a chunk length of 0 the inner loop never returns.\<close>

lemma process_complete_chunks_Some_pos:
  "process_complete_chunks n p F st = Some st' \<Longrightarrow> 0 < n"
  by (rule process_complete_chunks.raw_induct [where P = "\<lambda>n _ _ _ _. 0 < n"])
     (auto split: if_splits)

lemma process_complete_chunks_zero: "process_complete_chunks 0 p F st = None"
  using process_complete_chunks_Some_pos[of 0 p F st]
  by (cases "process_complete_chunks 0 p F st") auto

text \<open>
  The outer loop, started in a state whose buffer is shorter than a chunk (as the
  initial state is, and as every state is in which the loop waits for a frame).
\<close>

lemma main_loop_inv:
  assumes "0 < n" and "length (buffer st) < n"
  shows "\<exists>st'. main_loop n p F q st = Some st' \<and> assembled st' = assembled st @ concat q
     \<and> length (buffer st') = (length (buffer st) + length (concat q)) mod n
     \<and> (well_numbered n st \<longrightarrow> well_numbered n st')"
  using assms(2)
proof (induction q arbitrary: st)
  case Nil
  then show ?case by simp
next
  case (Cons f q)
  let ?s0 = "st\<lparr>buffer := buffer st @ f\<rparr>"
  from process_complete_chunks_inv[OF assms(1), of p F ?s0] obtain s1 where
    s1: "process_complete_chunks n p F ?s0 = Some s1" "assembled s1 = assembled ?s0"
        "length (buffer s1) = length (buffer ?s0) mod n"
        "well_numbered n ?s0 \<longrightarrow> well_numbered n s1" by blast
  have "length (buffer s1) < n" using s1(3) assms(1) by simp
  from Cons.IH[OF this] obtain st' where
    st': "main_loop n p F q s1 = Some st'" "assembled st' = assembled s1 @ concat q"
     "length (buffer st') = (length (buffer s1) + length (concat q)) mod n"
     "well_numbered n s1 \<longrightarrow> well_numbered n st'" by blast
  have "main_loop n p F (f # q) st = Some st'" using s1(1) st'(1) by simp
  moreover have "assembled st' = assembled st @ concat (f # q)"
    using st'(2) s1(2) by (simp add: assembled_def)
  moreover have "length (buffer st') = (length (buffer st) + length (concat (f # q))) mod n"
    using st'(3) s1(3) by (simp add: mod_add_left_eq add.assoc)
  moreover have "well_numbered n st \<longrightarrow> well_numbered n st'"
    using st'(4) s1(4) by (simp add: well_numbered_def)
  ultimately show ?case by blast
qed

text \<open>
  A run on \<open>q1 @ q2\<close> passes through the state that the run on \<open>q1\<close> ends in: the
  states in which the loop waits for a frame are the final states of the runs on the
  prefixes of the frame sequence.
\<close>

lemma main_loop_append:
  "main_loop n p F (q1 @ q2) st =
     (case main_loop n p F q1 st of None \<Rightarrow> None | Some st' \<Rightarrow> main_loop n p F q2 st')"
  by (induction q1 arbitrary: st) (auto split: option.splits)

lemma CHUNK_SAMPLES_pos: "0 < CHUNK_SAMPLES"
  by (simp add: CHUNK_SAMPLES_def SAMPLE_RATE_def CHUNK_DURATION_def)

text \<open>The script's own run, with 80000 samples to the chunk.\<close>

lemma main_assembles:
  "\<exists>st. main predict F frames = Some st \<and> assembled st = concat frames
     \<and> length (buffer st) < CHUNK_SAMPLES"
proof -
  have "length (buffer (initial_state :: 'a capture_state)) < CHUNK_SAMPLES"
    using CHUNK_SAMPLES_pos by (simp add: initial_state_def)
  from main_loop_inv[OF CHUNK_SAMPLES_pos this, of predict F frames]
  show ?thesis
    using CHUNK_SAMPLES_pos by (auto simp: main_def assembled_def initial_state_def)
qed

subsection \<open>Claims on chunk assembly\<close>

text \<open>
  C1 (round trip). For every sequence of frames fed to the assembler, with a positive
  chunk length, the run returns, and the emitted chunks concatenated in the order of
  their sequence numbers, followed by the leftover buffer, are exactly the
  concatenation of the frames in capture order: no sample is dropped and none is
  duplicated. The chunks are numbered 0, 1, 2, ... in the order of emission, and each
  has exactly the chunk length.
\<close>

theorem chunk_round_trip:
  assumes "0 < n"
  shows "\<exists>st. main_loop n predict F frames initial_state = Some st \<and>
     concat (map snd (chunks st)) @ buffer st = concat frames \<and>
     map fst (chunks st) = [0..<chunk_idx st] \<and>
     list_all (\<lambda>c. length (snd c) = n) (chunks st)"
proof -
  have "length (buffer (initial_state :: 'a capture_state)) < n"
    using assms by (simp add: initial_state_def)
  from main_loop_inv[OF assms this, of predict F frames]
  show ?thesis
    by (auto simp: assembled_def well_numbered_def initial_state_def)
qed

text \<open>
  The theorem at a chunk length of 2 and the frames [1, 2], [3], [4, 5, 6, 7]: three
  chunks and the leftover [7].
\<close>

theorem chunk_round_trip_witness:
  "main_loop 2 (\<lambda>i c. Inr ''ok'') [] [[1, 2], [3], [4, 5, 6, 7::nat]] initial_state =
     Some \<lparr>buffer = [7], chunk_idx = 3, chunks = [(0, [1, 2]), (1, [3, 4]), (2, [5, 6])],
       displayed = [(0, ''ok''), (1, ''ok''), (2, ''ok'')], api_errors = []\<rparr> \<and>
   (\<exists>st. main_loop 2 (\<lambda>i c. Inr ''ok'') [] [[1, 2], [3], [4, 5, 6, 7::nat]] initial_state = Some st \<and>
     concat (map snd (chunks st)) @ buffer st = concat [[1, 2], [3], [4, 5, 6, 7]] \<and>
     map fst (chunks st) = [0..<chunk_idx st] \<and>
     list_all (\<lambda>c. length (snd c) = 2) (chunks st))"
proof
  show "main_loop 2 (\<lambda>i c. Inr ''ok'') [] [[1, 2], [3], [4, 5, 6, 7::nat]] initial_state =
     Some \<lparr>buffer = [7], chunk_idx = 3, chunks = [(0, [1, 2]), (1, [3, 4]), (2, [5, 6])],
       displayed = [(0, ''ok''), (1, ''ok''), (2, ''ok'')], api_errors = []\<rparr>"
    by (simp add: process_complete_chunks.simps handle_chunk_def initial_state_def
        should_display_result_def)
  have "(0::nat) < 2" by simp
  from chunk_round_trip[OF this]
  show "\<exists>st. main_loop 2 (\<lambda>i c. Inr ''ok'') [] [[1, 2], [3], [4, 5, 6, 7::nat]] initial_state = Some st \<and>
     concat (map snd (chunks st)) @ buffer st = concat [[1, 2], [3], [4, 5, 6, 7]] \<and>
     map fst (chunks st) = [0..<chunk_idx st] \<and>
     list_all (\<lambda>c. length (snd c) = 2) (chunks st)"
    by blast
qed

text \<open>
  C8 (leftover invariant). With a positive chunk length, in every state in which the
  assembler waits for the next frame (the final state of the run on any sequence of
  frames, hence on any prefix of the capture), the leftover buffer holds strictly
  fewer samples than a chunk: it holds the total input length modulo the chunk
  length. When the total input length is a multiple of the chunk length, the
  leftover is empty.
\<close>

theorem leftover_invariant:
  assumes "0 < n"
  shows "\<exists>st. main_loop n predict F frames initial_state = Some st \<and>
     length (buffer st) < n \<and>
     length (buffer st) = length (concat frames) mod n \<and>
     (n dvd length (concat frames) \<longrightarrow> buffer st = [])"
proof -
  have "length (buffer (initial_state :: 'a capture_state)) < n"
    using assms by (simp add: initial_state_def)
  from main_loop_inv[OF assms this, of predict F frames] obtain st where
    st: "main_loop n predict F frames initial_state = Some st"
      "length (buffer st) = length (concat frames) mod n"
    by (auto simp: initial_state_def)
  have "length (buffer st) < n" using st(2) assms by simp
  moreover have "n dvd length (concat frames) \<longrightarrow> buffer st = []"
    using st(2) by auto
  ultimately show ?thesis using st by blast
qed

text \<open>
  The theorem at a chunk length of 3 and the frames [1, 2], [3, 4, 5, 6]: six samples,
  two chunks, nothing left over.
\<close>

theorem leftover_invariant_witness:
  "(3::nat) dvd length (concat [[1, 2], [3, 4, 5, 6::nat]]) \<and>
   (\<exists>st. main_loop 3 (\<lambda>i c. Inr ''ok'') [] [[1, 2], [3, 4, 5, 6::nat]] initial_state = Some st \<and>
      length (buffer st) < 3 \<and> buffer st = [] \<and> map snd (chunks st) = [[1, 2, 3], [4, 5, 6]])"
proof -
  have pos: "(0::nat) < 3" by simp
  have "length (concat [[1, 2], [3, 4, 5, 6::nat]]) = 3 * 2" by simp
  then have d: "(3::nat) dvd length (concat [[1, 2], [3, 4, 5, 6::nat]])"
    by (simp only: dvd_triv_left)
  have e: "main_loop 3 (\<lambda>i c. Inr ''ok'') [] [[1, 2], [3, 4, 5, 6::nat]] initial_state =
     Some \<lparr>buffer = [], chunk_idx = 2, chunks = [(0, [1, 2, 3]), (1, [4, 5, 6])],
       displayed = [(0, ''ok''), (1, ''ok'')], api_errors = []\<rparr>"
    by (simp add: process_complete_chunks.simps handle_chunk_def initial_state_def
        should_display_result_def)
  from leftover_invariant[OF pos, of "\<lambda>i c. Inr ''ok''" "[]" "[[1, 2], [3, 4, 5, 6::nat]]"] d e
  show ?thesis by auto
qed


section \<open>Errors and floating-point values\<close>

text \<open>
  Exceptions of the Python run time and of numpy that the functions below can meet,
  and the failures of the three models outside the repository (the diariser, the
  speaker encoder and the transcriber), each of which either raises or returns its
  answer.
\<close>

datatype py_error = ValueError | KeyError | IndexError | FileNotFoundError

datatype adapter_error = DiarizationFailed | EmbeddingFailed | TranscriptionFailed


text \<open>
  A value of a float array: \<open>Finite r\<close> is the float whose exact value is \<open>r\<close>, and
  there are the two infinities and not-a-number. The comparisons are those of IEEE
  arithmetic: every comparison with not-a-number is false.
\<close>

datatype np_float = Finite real | PosInf | NegInf | NaN

definition is_nan :: "np_float \<Rightarrow> bool" where
  "is_nan x = (case x of NaN \<Rightarrow> True | _ \<Rightarrow> False)"

definition np_less :: "np_float \<Rightarrow> np_float \<Rightarrow> bool" where
  "np_less a b =
     (case a of
        Finite x \<Rightarrow> (case b of Finite y \<Rightarrow> x < y | PosInf \<Rightarrow> True | _ \<Rightarrow> False)
      | NegInf \<Rightarrow> (case b of Finite y \<Rightarrow> True | PosInf \<Rightarrow> True | _ \<Rightarrow> False)
      | _ \<Rightarrow> False)"

definition np_le :: "np_float \<Rightarrow> np_float \<Rightarrow> bool" where
  "np_le a b =
     (case a of
        Finite x \<Rightarrow> (case b of Finite y \<Rightarrow> x \<le> y | PosInf \<Rightarrow> True | _ \<Rightarrow> False)
      | NegInf \<Rightarrow> (case b of NaN \<Rightarrow> False | _ \<Rightarrow> True)
      | PosInf \<Rightarrow> (case b of PosInf \<Rightarrow> True | _ \<Rightarrow> False)
      | NaN \<Rightarrow> False)"

definition np_ge :: "np_float \<Rightarrow> np_float \<Rightarrow> bool" where
  "np_ge a b = np_le b a"

section \<open>Speaker enrolment and identification (enroll\_speaker, load\_enrolled\_speakers, identify\_speaker)\<close>

text \<open>
  The three functions belong, with \<open>process_audio_file\<close>, to the script that
  diarises and transcribes a recorded file. The repository stores that script under
  the name \<open>local_realtime_transcribe.py\<close>, and the script that works on the
  microphone, with \<open>process_chunk\<close> and its \<open>main\<close>, under the name
  \<open>local_file_diarize_transcribe.py\<close>.
\<close>

subsection \<open>Dictionaries, indexing, numpy\<close>

text \<open>
  A Python dictionary keeps its keys in the order of their first insertion, and the
  order decides which profile \<open>identify_speaker\<close> prefers, so a dictionary is a list
  of pairs in iteration order. \<open>dict_set\<close> is \<open>d[k] = v\<close>: a key that is present
  keeps its place and takes the new value, a new key goes to the end. \<open>dict_get\<close>
  is \<open>d[k]\<close>, which raises KeyError for a key that is absent.
\<close>

fun dict_set :: "('k \<times> 'v) list \<Rightarrow> 'k \<Rightarrow> 'v \<Rightarrow> ('k \<times> 'v) list" where
  "dict_set [] k v = [(k, v)]"
| "dict_set ((k', v') # d) k v = (if k' = k then (k, v) # d else (k', v') # dict_set d k v)"

definition dict_get :: "('k \<times> 'v) list \<Rightarrow> 'k \<Rightarrow> py_error + 'v" where
  "dict_get d k = (case map_of d k of None \<Rightarrow> Inl KeyError | Some v \<Rightarrow> Inr v)"

text \<open>\<open>xs[i]\<close> for an index that is not negative: IndexError beyond the end.\<close>

definition py_index :: "'a list \<Rightarrow> nat \<Rightarrow> py_error + 'a" where
  "py_index xs i = (if i < length xs then Inr (xs ! i) else Inl IndexError)"

text \<open>A list comprehension whose elements may raise: the first exception wins.\<close>

fun collect :: "(py_error + 'a) list \<Rightarrow> py_error + 'a list" where
  "collect [] = Inr []"
| "collect (Inl e # rs) = Inl e"
| "collect (Inr x # rs) = (case collect rs of Inl e \<Rightarrow> Inl e | Inr xs \<Rightarrow> Inr (x # xs))"

text \<open>
  An embedding is a vector of floats. \<open>np.stack\<close> makes a matrix of a list of vectors
  and raises ValueError when there is none or when they differ in length.
\<close>

definition np_stack :: "'a list list \<Rightarrow> py_error + 'a list list" where
  "np_stack arrays =
     (case arrays of
        [] \<Rightarrow> Inl ValueError
      | a # rest \<Rightarrow>
          if list_all (\<lambda>b. length b = length a) rest then Inr arrays else Inl ValueError)"

text \<open>
  \<open>cdist(XA, XB, metric)\<close>: the matrix of the distances from every row of \<open>XA\<close> to
  every row of \<open>XB\<close>; ValueError when the rows of the two matrices differ in length.
  The metric itself, scipy's cosine distance, is a parameter: any function that gives
  a float for two vectors, so its rounding and its not-a-number results are covered.
\<close>

definition cdist ::
  "('a list \<Rightarrow> 'a list \<Rightarrow> np_float) \<Rightarrow> 'a list list \<Rightarrow> 'a list list \<Rightarrow>
   py_error + np_float list list" where
  "cdist metric XA XB =
     (if list_all (\<lambda>a. list_all (\<lambda>b. length b = length a) XB) XA
      then Inr (map (\<lambda>a. map (metric a) XB) XA)
      else Inl ValueError)"

text \<open>
  \<open>np.argmin\<close> on a vector of floats, as numpy's loop computes it: ValueError on an
  empty vector; index 0 if the first element is not-a-number; otherwise the loop
  takes every element that is not greater than or equal to the least one so far, and
  stops at once when the element taken is not-a-number. The result is the index of
  the first not-a-number if there is one, and of the first least element otherwise.
\<close>

fun argmin_scan :: "np_float \<Rightarrow> nat \<Rightarrow> nat \<Rightarrow> np_float list \<Rightarrow> nat" where
  "argmin_scan mp min_ind i [] = min_ind"
| "argmin_scan mp min_ind i (x # xs) =
     (if \<not> np_ge x mp
      then (if is_nan x then i else argmin_scan x i (Suc i) xs)
      else argmin_scan mp min_ind (Suc i) xs)"

fun np_argmin :: "np_float list \<Rightarrow> py_error + nat" where
  "np_argmin [] = Inl ValueError"
| "np_argmin (x # xs) = Inr (if is_nan x then 0 else argmin_scan x 0 1 xs)"

subsection \<open>The enrolment directory\<close>


text \<open>\<open>s.endswith(suf)\<close>.\<close>

definition ends_with :: "string \<Rightarrow> string \<Rightarrow> bool" where
  "ends_with s suf = prefix (rev suf) (rev s)"

text \<open>
  \<open>load_enrolled_speakers\<close> walks through \<open>os.listdir(ENROLL_DIR)\<close>, whose order is
  chosen by the operating system: the listing is a parameter. Every file name that
  ends in \<open>.npy\<close> is loaded and stored under the name without its last four
  characters.
\<close>

fun load_files ::
  "(string \<rightharpoonup> 'e) \<Rightarrow> string list \<Rightarrow> (string \<times> 'e) list \<Rightarrow> py_error + (string \<times> 'e) list" where
  "load_files dir [] speakers = Inr speakers"
| "load_files dir (fname # rest) speakers =
     (if ends_with fname ''.npy''
      then (case dir fname of
              None \<Rightarrow> Inl FileNotFoundError
            | Some embedding \<Rightarrow>
                load_files dir rest (dict_set speakers (take (length fname - 4) fname) embedding))
      else load_files dir rest speakers)"

definition load_enrolled_speakers ::
  "string list \<Rightarrow> (string \<rightharpoonup> 'e) option \<Rightarrow> py_error + (string \<times> 'e) list" where
  "load_enrolled_speakers listing enroll_dir =
     (case enroll_dir of None \<Rightarrow> Inr [] | Some dir \<Rightarrow> load_files dir listing [])"

subsection \<open>Identification\<close>

text \<open>
  \<open>identify_speaker\<close>, line by line: an empty registry gives \<open>Unknown\<close>; otherwise
  the names are the keys in iteration order, the embeddings are looked up under the
  names and stacked, the distances are the first row of the distance matrix of the
  turn's embedding against the stack, and the name at the index that \<open>np.argmin\<close>
  gives is returned if the distance there is strictly below the threshold. The
  ValueError of \<open>np.stack\<close> and of \<open>cdist\<close> is not caught.
\<close>

definition identify_speaker ::
  "('a list \<Rightarrow> 'a list \<Rightarrow> np_float) \<Rightarrow> 'a list \<Rightarrow> (string \<times> 'a list) list \<Rightarrow> np_float \<Rightarrow>
   py_error + string" where
  "identify_speaker cosine embedding enrolled_speakers threshold =
     (if enrolled_speakers = [] then Inr ''Unknown''
      else
        let names = map fst enrolled_speakers in
        case collect (map (dict_get enrolled_speakers) names) of
          Inl e \<Rightarrow> Inl e
        | Inr arrays \<Rightarrow>
           (case np_stack arrays of
              Inl e \<Rightarrow> Inl e
            | Inr embeddings \<Rightarrow>
               (case cdist cosine [embedding] embeddings of
                  Inl e \<Rightarrow> Inl e
                | Inr rows \<Rightarrow>
                   (case py_index rows 0 of
                      Inl e \<Rightarrow> Inl e
                    | Inr dists \<Rightarrow>
                       (case np_argmin dists of
                          Inl e \<Rightarrow> Inl e
                        | Inr min_idx \<Rightarrow>
                           (case py_index dists min_idx of
                              Inl e \<Rightarrow> Inl e
                            | Inr d \<Rightarrow>
                                if np_less d threshold then py_index names min_idx
                                else Inr ''Unknown''))))))"

text \<open>
  The default of the parameter \<open>threshold\<close>: the float written \<open>0.7\<close>, whose exact
  value is 6305039478318694 / 9007199254740992.
\<close>

definition DEFAULT_THRESHOLD :: np_float where
  "DEFAULT_THRESHOLD = Finite (6305039478318694 / 9007199254740992)"

text \<open>
  For the examples, the cosine distance of two vectors of numbers: one minus the
  cosine of the angle between them, and not-a-number when one of them has norm zero
  or holds a value that is not a number. On the vectors of the examples, whose
  entries are 0 and 1, the float computation is exact.
\<close>

fun finite_values :: "np_float list \<Rightarrow> real list option" where
  "finite_values [] = Some []"
| "finite_values (Finite r # xs) = (case finite_values xs of None \<Rightarrow> None | Some rs \<Rightarrow> Some (r # rs))"
| "finite_values (x # xs) = None"

definition dot :: "real list \<Rightarrow> real list \<Rightarrow> real" where
  "dot u v = sum_list (map2 (*) u v)"

definition cosine_distance :: "np_float list \<Rightarrow> np_float list \<Rightarrow> np_float" where
  "cosine_distance u v =
     (case finite_values u of
        None \<Rightarrow> NaN
      | Some x \<Rightarrow>
         (case finite_values v of
            None \<Rightarrow> NaN
          | Some y \<Rightarrow>
              if dot x x = 0 \<or> dot y y = 0 then NaN
              else Finite (1 - dot x y / (sqrt (dot x x) * sqrt (dot y y)))))"

subsection \<open>Comparisons of floats\<close>

text \<open>
  The comparisons order the values that are numbers or infinities; not-a-number is
  comparable with nothing.
\<close>

lemma np_not_ge_iff: "\<not> is_nan mp \<Longrightarrow> (\<not> np_ge x mp) = (is_nan x \<or> np_less x mp)"
  by (cases x; cases mp) (auto simp: np_ge_def np_le_def np_less_def is_nan_def)

lemma np_less_le_trans: "np_less a b \<Longrightarrow> np_le b c \<Longrightarrow> np_less a c"
  by (cases a; cases b; cases c) (auto simp: np_le_def np_less_def)

lemma np_less_imp_le: "np_less a b \<Longrightarrow> np_le a b"
  by (cases a; cases b) (auto simp: np_le_def np_less_def)

lemma np_le_refl: "\<not> is_nan a \<Longrightarrow> np_le a a"
  by (cases a) (auto simp: np_le_def is_nan_def)


lemma np_not_less_le: "\<not> is_nan a \<Longrightarrow> \<not> is_nan b \<Longrightarrow> \<not> np_less a b \<Longrightarrow> np_le b a"
  by (cases a; cases b) (auto simp: np_le_def np_less_def is_nan_def)


lemma np_le_antisym: "np_le a b \<Longrightarrow> np_le b a \<Longrightarrow> a = b"
  by (cases a; cases b) (auto simp: np_le_def)

lemma np_less_irrefl: "\<not> np_less a a"
  by (cases a) (auto simp: np_less_def)

subsection \<open>Properties of argmin and of the dictionary look-ups\<close>

text \<open>
  The invariant of the scan: \<open>pre\<close> is the part of the vector already read, it holds
  no not-a-number, \<open>mp\<close> is its least value and \<open>min_ind\<close> the first index at which
  that value stands.
\<close>

lemma argmin_scan_spec:
  assumes "min_ind < length pre" and "pre ! min_ind = mp"
    and "\<forall>j<length pre. \<not> is_nan (pre ! j)"
    and "\<forall>j<length pre. np_le mp (pre ! j)" and "\<forall>j<min_ind. np_less mp (pre ! j)"
  shows "argmin_scan mp min_ind (length pre) xs < length (pre @ xs) \<and>
     ((\<exists>x\<in>set xs. is_nan x) \<longrightarrow> is_nan ((pre @ xs) ! argmin_scan mp min_ind (length pre) xs)) \<and>
     ((\<forall>x\<in>set xs. \<not> is_nan x) \<longrightarrow>
        (\<forall>j<length (pre @ xs).
            np_le ((pre @ xs) ! argmin_scan mp min_ind (length pre) xs) ((pre @ xs) ! j)) \<and>
        (\<forall>j<argmin_scan mp min_ind (length pre) xs.
            np_less ((pre @ xs) ! argmin_scan mp min_ind (length pre) xs) ((pre @ xs) ! j)))"
  using assms
proof (induction xs arbitrary: pre mp min_ind)
  case Nil
  then show ?case by simp
next
  case (Cons x xs)
  have mpn: "\<not> is_nan mp" using Cons.prems(1,2,3) by auto
  show ?case
  proof (cases "is_nan x")
    case True
    then have "\<not> np_ge x mp" using mpn by (simp add: np_not_ge_iff)
    with True show ?thesis by (simp add: nth_append)
  next
    case xn: False
    show ?thesis
    proof (cases "np_less x mp")
      case True
      then have t: "\<not> np_ge x mp" using mpn by (simp add: np_not_ge_iff)
      have a: "length pre < length (pre @ [x])" by simp
      have b: "(pre @ [x]) ! length pre = x" by simp
      have n: "\<forall>j<length (pre @ [x]). \<not> is_nan ((pre @ [x]) ! j)"
        using xn Cons.prems(3) by (auto simp: nth_append less_Suc_eq)
      have c: "\<forall>j<length (pre @ [x]). np_le x ((pre @ [x]) ! j)"
        using True xn Cons.prems(4)
        by (auto simp: nth_append less_Suc_eq np_le_refl
            intro: np_less_imp_le np_less_le_trans)
      have d: "\<forall>j<length pre. np_less x ((pre @ [x]) ! j)"
        using True Cons.prems(4) by (auto simp: nth_append intro: np_less_le_trans)
      from Cons.IH[OF a b n c d] t xn show ?thesis by simp
    next
      case False
      then have t: "np_ge x mp" using np_not_ge_iff[OF mpn, of x] xn by blast
      have le: "np_le mp x" using False mpn xn by (simp add: np_not_less_le)
      have a: "min_ind < length (pre @ [x])" using Cons.prems(1) by simp
      have b: "(pre @ [x]) ! min_ind = mp" using Cons.prems(1,2) by (simp add: nth_append)
      have n: "\<forall>j<length (pre @ [x]). \<not> is_nan ((pre @ [x]) ! j)"
        using xn Cons.prems(3) by (auto simp: nth_append less_Suc_eq)
      have c: "\<forall>j<length (pre @ [x]). np_le mp ((pre @ [x]) ! j)"
        using le Cons.prems(4) by (auto simp: nth_append less_Suc_eq)
      have d: "\<forall>j<min_ind. np_less mp ((pre @ [x]) ! j)"
        using Cons.prems(1,5) by (auto simp: nth_append)
      from Cons.IH[OF a b n c d] t xn show ?thesis by simp
    qed
  qed
qed

lemma np_argmin_spec:
  assumes "ds \<noteq> []"
  shows "\<exists>i. np_argmin ds = Inr i \<and> i < length ds \<and>
     ((\<exists>x\<in>set ds. is_nan x) \<longrightarrow> is_nan (ds ! i)) \<and>
     ((\<forall>x\<in>set ds. \<not> is_nan x) \<longrightarrow>
        (\<forall>j<length ds. np_le (ds ! i) (ds ! j)) \<and> (\<forall>j<i. np_less (ds ! i) (ds ! j)))"
proof -
  from assms obtain x xs where ds: "ds = x # xs" by (cases ds) auto
  show ?thesis
  proof (cases "is_nan x")
    case True
    then show ?thesis by (simp add: ds)
  next
    case False
    have "0 < length [x]" "[x] ! 0 = x" "\<forall>j<length [x]. \<not> is_nan ([x] ! j)"
      "\<forall>j<length [x]. np_le x ([x] ! j)" "\<forall>j<0. np_less x ([x] ! j)"
      using False by (simp_all add: np_le_refl)
    from argmin_scan_spec[OF this, of xs] False show ?thesis
      by (simp add: ds)
  qed
qed

text \<open>Looking up the keys of a dictionary never fails.\<close>

lemma collect_dict_get_keys:
  "\<exists>embs. collect (map (dict_get d) (map fst d)) = Inr embs \<and> length embs = length d"
proof -
  have "set ks \<subseteq> fst ` set d \<Longrightarrow> \<exists>embs. collect (map (dict_get d) ks) = Inr embs \<and> length embs = length ks" for ks
  proof (induction ks)
    case Nil
    then show ?case by simp
  next
    case (Cons k ks)
    then obtain v where "map_of d k = Some v"
      by (cases "map_of d k") (auto simp: map_of_eq_None_iff)
    with Cons show ?case by (auto simp: dict_get_def)
  qed
  from this[of "map fst d"] show ?thesis by simp
qed

lemma collect_dict_get_distinct:
  assumes "distinct (map fst d)"
  shows "collect (map (dict_get d) (map fst d)) = Inr (map snd d)"
proof -
  have "set ps \<subseteq> set d \<Longrightarrow> collect (map (dict_get d) (map fst ps)) = Inr (map snd ps)" for ps
  proof (induction ps)
    case Nil
    then show ?case by simp
  next
    case (Cons p ps)
    then have "map_of d (fst p) = Some (snd p)"
      using assms by (cases p) simp
    with Cons show ?case by (simp add: dict_get_def)
  qed
  from this[of d] show ?thesis by simp
qed

subsection \<open>What identification returns\<close>

text \<open>
  A registry is well shaped for a turn when every profile has the length of the
  turn's embedding. Stacking the profiles and taking the distances succeeds exactly
  then, and raises ValueError otherwise.
\<close>

definition well_shaped :: "'a list \<Rightarrow> (string \<times> 'a list) list \<Rightarrow> bool" where
  "well_shaped embedding enrolled = list_all (\<lambda>p. length (snd p) = length embedding) enrolled"

lemma stack_then_cdist:
  assumes "arrays \<noteq> []"
  shows "(case np_stack arrays of Inl e \<Rightarrow> Inl e | Inr embeddings \<Rightarrow> cdist cosine [v] embeddings) =
     (if list_all (\<lambda>a. length a = length v) arrays
      then Inr [map (cosine v) arrays] else Inl ValueError)"
proof -
  from assms obtain a rest where ar: "arrays = a # rest" by (cases arrays) auto
  show ?thesis
  proof (cases "list_all (\<lambda>b. length b = length a) rest")
    case False
    then have "\<not> list_all (\<lambda>a. length a = length v) arrays"
      by (auto simp: ar list_all_iff)
    with False show ?thesis by (simp add: np_stack_def ar)
  next
    case True
    then show ?thesis by (auto simp: np_stack_def cdist_def ar list_all_iff)
  qed
qed

lemma identify_speaker_unfold:
  assumes "reg \<noteq> []"
    and "collect (map (dict_get reg) (map fst reg)) = Inr arrays" and "length arrays = length reg"
  shows "identify_speaker cosine v reg thr =
     (if list_all (\<lambda>a. length a = length v) arrays
      then (case np_argmin (map (cosine v) arrays) of
              Inl e \<Rightarrow> Inl e
            | Inr min_idx \<Rightarrow>
               (case py_index (map (cosine v) arrays) min_idx of
                  Inl e \<Rightarrow> Inl e
                | Inr d \<Rightarrow> if np_less d thr then py_index (map fst reg) min_idx else Inr ''Unknown''))
      else Inl ValueError)"
proof -
  have ne: "arrays \<noteq> []" using assms(1,3) by auto
  show ?thesis
  proof (cases "list_all (\<lambda>a. length a = length v) arrays")
    case True
    with stack_then_cdist[OF ne, of cosine v]
    obtain embeddings where "np_stack arrays = Inr embeddings"
      "cdist cosine [v] embeddings = Inr [map (cosine v) arrays]"
      by (cases "np_stack arrays") auto
    with True assms(1,2) show ?thesis
      by (simp add: identify_speaker_def py_index_def)
  next
    case False
    with stack_then_cdist[OF ne, of cosine v]
    have "(case np_stack arrays of Inl e \<Rightarrow> Inl e | Inr embeddings \<Rightarrow> cdist cosine [v] embeddings)
        = Inl ValueError" by simp
    with False assms(1,2) show ?thesis
      by (cases "np_stack arrays") (auto simp: identify_speaker_def)
  qed
qed

lemma identify_speaker_selected:
  assumes "arrays \<noteq> []" and "length names = length arrays"
  shows "\<exists>i<length arrays.
     ((\<exists>j<length arrays. is_nan (cosine v (arrays ! j))) \<longrightarrow> is_nan (cosine v (arrays ! i))) \<and>
     ((\<forall>j<length arrays. \<not> is_nan (cosine v (arrays ! j))) \<longrightarrow>
        (\<forall>j<length arrays. np_le (cosine v (arrays ! i)) (cosine v (arrays ! j))) \<and>
        (\<forall>j<i. np_less (cosine v (arrays ! i)) (cosine v (arrays ! j)))) \<and>
     (case np_argmin (map (cosine v) arrays) of
        Inl e \<Rightarrow> Inl e
      | Inr min_idx \<Rightarrow>
         (case py_index (map (cosine v) arrays) min_idx of
            Inl e \<Rightarrow> Inl e
          | Inr d \<Rightarrow> if np_less d thr then py_index names min_idx else Inr ''Unknown'')) =
       Inr (if np_less (cosine v (arrays ! i)) thr then names ! i else ''Unknown'')"
proof -
  let ?ds = "map (cosine v) arrays"
  have "?ds \<noteq> []" using assms(1) by simp
  from np_argmin_spec[OF this] obtain i where
    i: "np_argmin ?ds = Inr i" "i < length ?ds"
      "(\<exists>x\<in>set ?ds. is_nan x) \<longrightarrow> is_nan (?ds ! i)"
      "(\<forall>x\<in>set ?ds. \<not> is_nan x) \<longrightarrow>
        (\<forall>j<length ?ds. np_le (?ds ! i) (?ds ! j)) \<and> (\<forall>j<i. np_less (?ds ! i) (?ds ! j))"
    by blast
  have il: "i < length arrays" using i(2) by simp
  have a: "(\<exists>j<length arrays. is_nan (cosine v (arrays ! j))) \<longrightarrow> is_nan (cosine v (arrays ! i))"
  proof
    assume "\<exists>j<length arrays. is_nan (cosine v (arrays ! j))"
    then obtain j where "j < length arrays" "is_nan (cosine v (arrays ! j))" by blast
    then have "\<exists>x\<in>set ?ds. is_nan x" by (auto simp: in_set_conv_nth intro!: bexI[of _ "arrays ! j"])
    with i(3) il show "is_nan (cosine v (arrays ! i))" by simp
  qed
  have b: "(\<forall>j<length arrays. \<not> is_nan (cosine v (arrays ! j))) \<longrightarrow>
        (\<forall>j<length arrays. np_le (cosine v (arrays ! i)) (cosine v (arrays ! j))) \<and>
        (\<forall>j<i. np_less (cosine v (arrays ! i)) (cosine v (arrays ! j)))"
  proof
    assume "\<forall>j<length arrays. \<not> is_nan (cosine v (arrays ! j))"
    then have "\<forall>x\<in>set ?ds. \<not> is_nan x" by (auto simp: in_set_conv_nth)
    with i(4) il show "(\<forall>j<length arrays. np_le (cosine v (arrays ! i)) (cosine v (arrays ! j))) \<and>
        (\<forall>j<i. np_less (cosine v (arrays ! i)) (cosine v (arrays ! j)))"
      by simp
  qed
  have "(case np_argmin ?ds of
        Inl e \<Rightarrow> Inl e
      | Inr min_idx \<Rightarrow>
         (case py_index ?ds min_idx of
            Inl e \<Rightarrow> Inl e
          | Inr d \<Rightarrow> if np_less d thr then py_index names min_idx else Inr ''Unknown'')) =
       Inr (if np_less (cosine v (arrays ! i)) thr then names ! i else ''Unknown'')"
    using i(1) il assms(2) by (simp add: py_index_def)
  with il a b show ?thesis by blast
qed

text \<open>
  The only exception that identification can raise is ValueError, and a label that it
  returns is \<open>Unknown\<close> or a name of the registry.
\<close>

lemma identify_speaker_outcomes:
  "identify_speaker cosine v reg thr = Inl ValueError \<or>
   (\<exists>label. identify_speaker cosine v reg thr = Inr label \<and>
      (label = ''Unknown'' \<or> label \<in> fst ` set reg))"
proof (cases "reg = []")
  case True
  then show ?thesis by (simp add: identify_speaker_def)
next
  case False
  from collect_dict_get_keys[of reg] obtain arrays where
    arrays: "collect (map (dict_get reg) (map fst reg)) = Inr arrays" "length arrays = length reg"
    by blast
  note unf = identify_speaker_unfold[OF False arrays, of cosine v thr]
  show ?thesis
  proof (cases "list_all (\<lambda>a. length a = length v) arrays")
    case no: False
    with unf show ?thesis by simp
  next
    case True
    have ne: "arrays \<noteq> []" using False arrays(2) by auto
    have ln: "length (map fst reg) = length arrays" using arrays(2) by simp
    from identify_speaker_selected[OF ne ln, of cosine v thr] obtain i where
      i: "i < length arrays"
        "(case np_argmin (map (cosine v) arrays) of
            Inl e \<Rightarrow> Inl e
          | Inr min_idx \<Rightarrow>
             (case py_index (map (cosine v) arrays) min_idx of
                Inl e \<Rightarrow> Inl e
              | Inr d \<Rightarrow> if np_less d thr then py_index (map fst reg) min_idx else Inr ''Unknown'')) =
         Inr (if np_less (cosine v (arrays ! i)) thr then map fst reg ! i else ''Unknown'')"
      by blast
    have "identify_speaker cosine v reg thr =
        Inr (if np_less (cosine v (arrays ! i)) thr then map fst reg ! i else ''Unknown'')"
      using unf True i(2) by simp
    moreover have "map fst reg ! i \<in> fst ` set reg"
      using i(1) arrays(2) by (metis length_map nth_mem set_map)
    ultimately show ?thesis by auto
  qed
qed

lemma identify_speaker_shape_error:
  assumes "reg \<noteq> []" and "distinct (map fst reg)" and "\<not> well_shaped v reg"
  shows "identify_speaker cosine v reg thr = Inl ValueError"
proof -
  have arrays: "collect (map (dict_get reg) (map fst reg)) = Inr (map snd reg)"
    by (rule collect_dict_get_distinct[OF assms(2)])
  have "\<not> list_all (\<lambda>a. length a = length v) (map snd reg)"
    using assms(3) by (simp add: well_shaped_def list_all_iff)
  with identify_speaker_unfold[OF assms(1) arrays, of cosine v thr] show ?thesis by simp
qed

text \<open>
  On a well-shaped registry that is not empty a label is returned. The index chosen
  is that of a not-a-number distance if there is one, and otherwise the first index
  at which the distance is least.
\<close>

lemma identify_speaker_char:
  assumes "reg \<noteq> []" and "distinct (map fst reg)" and "well_shaped v reg"
  shows "\<exists>i<length reg.
     ((\<exists>j<length reg. is_nan (cosine v (snd (reg ! j)))) \<longrightarrow> is_nan (cosine v (snd (reg ! i)))) \<and>
     ((\<forall>j<length reg. \<not> is_nan (cosine v (snd (reg ! j)))) \<longrightarrow>
        (\<forall>j<length reg. np_le (cosine v (snd (reg ! i))) (cosine v (snd (reg ! j)))) \<and>
        (\<forall>j<i. np_less (cosine v (snd (reg ! i))) (cosine v (snd (reg ! j))))) \<and>
     identify_speaker cosine v reg thr =
       Inr (if np_less (cosine v (snd (reg ! i))) thr then fst (reg ! i) else ''Unknown'')"
proof -
  have arrays: "collect (map (dict_get reg) (map fst reg)) = Inr (map snd reg)"
    by (rule collect_dict_get_distinct[OF assms(2)])
  have sh: "list_all (\<lambda>a. length a = length v) (map snd reg)"
    using assms(3) by (simp add: well_shaped_def list_all_iff)
  have ne: "map snd reg \<noteq> []" using assms(1) by simp
  have ln: "length (map fst reg) = length (map snd reg)" by simp
  from identify_speaker_selected[OF ne ln, of cosine v thr] obtain i where
    i: "i < length (map snd reg)"
      "(\<exists>j<length (map snd reg). is_nan (cosine v (map snd reg ! j))) \<longrightarrow>
         is_nan (cosine v (map snd reg ! i))"
      "(\<forall>j<length (map snd reg). \<not> is_nan (cosine v (map snd reg ! j))) \<longrightarrow>
        (\<forall>j<length (map snd reg). np_le (cosine v (map snd reg ! i)) (cosine v (map snd reg ! j))) \<and>
        (\<forall>j<i. np_less (cosine v (map snd reg ! i)) (cosine v (map snd reg ! j)))"
      "(case np_argmin (map (cosine v) (map snd reg)) of
          Inl e \<Rightarrow> Inl e
        | Inr min_idx \<Rightarrow>
           (case py_index (map (cosine v) (map snd reg)) min_idx of
              Inl e \<Rightarrow> Inl e
            | Inr d \<Rightarrow> if np_less d thr then py_index (map fst reg) min_idx else Inr ''Unknown'')) =
       Inr (if np_less (cosine v (map snd reg ! i)) thr then map fst reg ! i else ''Unknown'')"
    by blast
  have il: "i < length reg" using i(1) by simp
  have r: "identify_speaker cosine v reg thr =
       Inr (if np_less (cosine v (snd (reg ! i))) thr then fst (reg ! i) else ''Unknown'')"
    using identify_speaker_unfold[OF assms(1) arrays, of cosine v thr] sh i(4) il by simp
  have a: "(\<exists>j<length reg. is_nan (cosine v (snd (reg ! j)))) \<longrightarrow> is_nan (cosine v (snd (reg ! i)))"
    using i(2) il by auto
  have b: "(\<forall>j<length reg. \<not> is_nan (cosine v (snd (reg ! j)))) \<longrightarrow>
        (\<forall>j<length reg. np_le (cosine v (snd (reg ! i))) (cosine v (snd (reg ! j)))) \<and>
        (\<forall>j<i. np_less (cosine v (snd (reg ! i))) (cosine v (snd (reg ! j))))"
    using i(3) il by auto
  from il a b r show ?thesis by blast
qed

text \<open>A distance that is not a number makes the result \<open>Unknown\<close>.\<close>

lemma identify_speaker_nan:
  assumes "reg \<noteq> []" and "distinct (map fst reg)" and "well_shaped v reg"
    and "\<exists>p\<in>set reg. is_nan (cosine v (snd p))"
  shows "identify_speaker cosine v reg thr = Inr ''Unknown''"
proof -
  from assms(4) obtain p where p: "p \<in> set reg" "is_nan (cosine v (snd p))" by blast
  then obtain j where "j < length reg" "reg ! j = p" by (auto simp: in_set_conv_nth)
  with p(2) have ex: "\<exists>j<length reg. is_nan (cosine v (snd (reg ! j)))" by blast
  from identify_speaker_char[OF assms(1,2,3), of cosine thr] ex obtain i where
    "is_nan (cosine v (snd (reg ! i)))"
    "identify_speaker cosine v reg thr =
       Inr (if np_less (cosine v (snd (reg ! i))) thr then fst (reg ! i) else ''Unknown'')"
    by blast
  moreover have "\<not> np_less (cosine v (snd (reg ! i))) thr"
    using calculation(1) by (cases "cosine v (snd (reg ! i))") (auto simp: is_nan_def np_less_def)
  ultimately show ?thesis by simp
qed


subsection \<open>The registry is loaded in the order of the directory listing\<close>






subsection \<open>Distances and evaluation of the examples\<close>

lemma cosine_distance_same: "cosine_distance [Finite 1, Finite 0] [Finite 1, Finite 0] = Finite 0"
  by (simp add: cosine_distance_def dot_def)

lemma cosine_distance_orthogonal: "cosine_distance [Finite 1, Finite 0] [Finite 0, Finite 1] = Finite 1"
  by (simp add: cosine_distance_def dot_def)

lemma cosine_distance_zero_norm: "cosine_distance [Finite 1, Finite 0] [Finite 0, Finite 0] = NaN"
  by (simp add: cosine_distance_def dot_def)

lemmas identify_eval = identify_speaker_def dict_get_def py_index_def np_stack_def cdist_def
  is_nan_def np_less_def np_le_def np_ge_def DEFAULT_THRESHOLD_def
  cosine_distance_same cosine_distance_orthogonal cosine_distance_zero_norm

subsection \<open>Claims on identification\<close>

text \<open>
  C2 (threshold boundary), as the code has it. For every turn embedding and every
  registry that is not empty (its names distinct, as the keys of a dictionary are)
  whose profiles all have the length of the embedding and none of whose distances from
  the embedding is not-a-number, there is a profile at the least distance such that
  identification returns its name if that distance is strictly below the threshold,
  and \<open>Unknown\<close> if the distance equals the threshold or is not below it.
\<close>

theorem threshold_boundary:
  assumes "enrolled \<noteq> []" and "distinct (map fst enrolled)"
    and "\<forall>p\<in>set enrolled. length (snd p) = length e"
    and "\<forall>p\<in>set enrolled. \<not> is_nan (cosine e (snd p))"
  shows "\<exists>i<length enrolled.
     (\<forall>j<length enrolled. np_le (cosine e (snd (enrolled ! i))) (cosine e (snd (enrolled ! j)))) \<and>
     (np_less (cosine e (snd (enrolled ! i))) threshold \<longrightarrow>
        identify_speaker cosine e enrolled threshold = Inr (fst (enrolled ! i))) \<and>
     (cosine e (snd (enrolled ! i)) = threshold \<longrightarrow>
        identify_speaker cosine e enrolled threshold = Inr ''Unknown'') \<and>
     (\<not> np_less (cosine e (snd (enrolled ! i))) threshold \<longrightarrow>
        identify_speaker cosine e enrolled threshold = Inr ''Unknown'')"
proof -
  have ws: "well_shaped e enrolled"
    using assms(3) by (simp add: well_shaped_def list_all_iff)
  have nonan: "\<forall>j<length enrolled. \<not> is_nan (cosine e (snd (enrolled ! j)))"
    using assms(4) by simp
  from identify_speaker_char[OF assms(1,2) ws, of cosine threshold] nonan obtain i where
    i: "i < length enrolled"
      "\<forall>j<length enrolled. np_le (cosine e (snd (enrolled ! i))) (cosine e (snd (enrolled ! j)))"
      "identify_speaker cosine e enrolled threshold =
         Inr (if np_less (cosine e (snd (enrolled ! i))) threshold
              then fst (enrolled ! i) else ''Unknown'')"
    by blast
  show ?thesis
  proof (intro exI[of _ i] conjI impI)
    show "i < length enrolled" by (rule i(1))
    show "\<forall>j<length enrolled. np_le (cosine e (snd (enrolled ! i))) (cosine e (snd (enrolled ! j)))"
      by (rule i(2))
  next
    assume "np_less (cosine e (snd (enrolled ! i))) threshold"
    with i(3) show "identify_speaker cosine e enrolled threshold = Inr (fst (enrolled ! i))" by simp
  next
    assume "cosine e (snd (enrolled ! i)) = threshold"
    then have "\<not> np_less (cosine e (snd (enrolled ! i))) threshold"
      by (simp add: np_less_irrefl)
    with i(3) show "identify_speaker cosine e enrolled threshold = Inr ''Unknown''" by simp
  next
    assume "\<not> np_less (cosine e (snd (enrolled ! i))) threshold"
    with i(3) show "identify_speaker cosine e enrolled threshold = Inr ''Unknown''" by simp
  qed
qed

text \<open>
  Both sides of the boundary: the embedding (1, 0) is at cosine distance 1 from the
  profile (0, 1); at the threshold 1 the result is \<open>Unknown\<close>, at the threshold
  1.25 it is the enrolled name, and at the default threshold it is \<open>Unknown\<close>.
\<close>

theorem threshold_boundary_witness:
  "cosine_distance [Finite 1, Finite 0] [Finite 0, Finite 1] = Finite 1 \<and>
   identify_speaker cosine_distance [Finite 1, Finite 0] [(''Bob'', [Finite 0, Finite 1])] (Finite 1)
     = Inr ''Unknown'' \<and>
   identify_speaker cosine_distance [Finite 1, Finite 0] [(''Bob'', [Finite 0, Finite 1])]
     (Finite (5 / 4)) = Inr ''Bob'' \<and>
   identify_speaker cosine_distance [Finite 1, Finite 0] [(''Bob'', [Finite 0, Finite 1])]
     DEFAULT_THRESHOLD = Inr ''Unknown''"
proof -
  let ?reg = "[(''Bob'', [Finite 0, Finite 1])]"
  let ?e = "[Finite 1, Finite 0]"
  have ne: "?reg \<noteq> []" by simp
  have di: "distinct (map fst ?reg)" by simp
  have sh: "\<forall>p\<in>set ?reg. length (snd p) = length ?e" by simp
  have nn: "\<forall>p\<in>set ?reg. \<not> is_nan (cosine_distance ?e (snd p))"
    by (simp add: cosine_distance_orthogonal is_nan_def)
  note th = threshold_boundary[where enrolled = ?reg and e = ?e and cosine = cosine_distance,
      OF ne di sh nn]
  from th[of "Finite 1"]
  have a: "identify_speaker cosine_distance ?e ?reg (Finite 1) = Inr ''Unknown''"
    by (simp add: cosine_distance_orthogonal)
  from th[of "Finite (5 / 4)"]
  have b: "identify_speaker cosine_distance ?e ?reg (Finite (5 / 4)) = Inr ''Bob''"
    by (simp add: cosine_distance_orthogonal np_less_def)
  from th[of DEFAULT_THRESHOLD]
  have c: "identify_speaker cosine_distance ?e ?reg DEFAULT_THRESHOLD = Inr ''Unknown''"
    by (simp add: cosine_distance_orthogonal np_less_def DEFAULT_THRESHOLD_def)
  from a b c cosine_distance_orthogonal show ?thesis by (intro conjI)
qed

text \<open>
  The claim as the specification states it, for every embedding and every registry
  that is not empty, fails. With a profile of norm zero listed before a profile at
  distance 0, the distance of the first is not-a-number, \<open>np.argmin\<close> selects it,
  the comparison with the threshold is false, and the result is \<open>Unknown\<close> although
  a profile lies at a distance below the threshold. With an embedding of three
  entries and a profile of two, the distance computation raises ValueError and no
  label is returned.
\<close>

theorem threshold_counterexample:
  "cosine_distance [Finite 1, Finite 0] [Finite 1, Finite 0] = Finite 0 \<and>
   np_less (Finite 0) DEFAULT_THRESHOLD \<and>
   cosine_distance [Finite 1, Finite 0] [Finite 0, Finite 0] = NaN \<and>
   identify_speaker cosine_distance [Finite 1, Finite 0]
      [(''zero'', [Finite 0, Finite 0]), (''alice'', [Finite 1, Finite 0])] DEFAULT_THRESHOLD
     = Inr ''Unknown'' \<and>
   identify_speaker cosine_distance [Finite 1, Finite 0, Finite 0]
      [(''alice'', [Finite 1, Finite 0])] DEFAULT_THRESHOLD = Inl ValueError"
  by (simp add: identify_eval)





text \<open>
  C9 (range of the label). For every embedding, registry and threshold: a label that
  identification returns is the string \<open>Unknown\<close> or one of the names in the
  registry; the only exception it raises is the ValueError of the distance
  computation; it returns a label whenever the names are distinct and every profile
  has the length of the embedding; and on the empty registry the label is
  \<open>Unknown\<close>.
\<close>

theorem identification_label_range:
  "(\<forall>label. identify_speaker cosine e enrolled threshold = Inr label \<longrightarrow>
      label = ''Unknown'' \<or> label \<in> fst ` set enrolled) \<and>
   (\<forall>err. identify_speaker cosine e enrolled threshold = Inl err \<longrightarrow> err = ValueError) \<and>
   (distinct (map fst enrolled) \<and> (\<forall>p\<in>set enrolled. length (snd p) = length e) \<longrightarrow>
      (\<exists>label. identify_speaker cosine e enrolled threshold = Inr label)) \<and>
   identify_speaker cosine e [] threshold = Inr ''Unknown''"
proof (intro conjI allI impI)
  fix label
  assume "identify_speaker cosine e enrolled threshold = Inr label"
  with identify_speaker_outcomes[of cosine e enrolled threshold]
  show "label = ''Unknown'' \<or> label \<in> fst ` set enrolled" by auto
next
  fix err
  assume "identify_speaker cosine e enrolled threshold = Inl err"
  with identify_speaker_outcomes[of cosine e enrolled threshold]
  show "err = ValueError" by auto
next
  assume a: "distinct (map fst enrolled) \<and> (\<forall>p\<in>set enrolled. length (snd p) = length e)"
  show "\<exists>label. identify_speaker cosine e enrolled threshold = Inr label"
  proof (cases "enrolled = []")
    case True
    then show ?thesis by (simp add: identify_speaker_def)
  next
    case False
    have "well_shaped e enrolled" using a by (simp add: well_shaped_def list_all_iff)
    from identify_speaker_char[OF False _ this, of cosine threshold] a show ?thesis by blast
  qed
next
  show "identify_speaker cosine e [] threshold = Inr ''Unknown''"
    by (simp add: identify_speaker_def)
qed

text \<open>
  A profile out of reach, a profile within reach, a profile of another length, and the
  empty registry.
\<close>

theorem identification_label_range_witness:
  "identify_speaker cosine_distance [Finite 0, Finite 1] [(''alice'', [Finite 1, Finite 0])]
      DEFAULT_THRESHOLD = Inr ''Unknown'' \<and>
   identify_speaker cosine_distance [Finite 1, Finite 0] [(''alice'', [Finite 1, Finite 0])]
      DEFAULT_THRESHOLD = Inr ''alice'' \<and>
   (''alice'' = ''Unknown'' \<or> ''alice'' \<in> fst ` set [(''alice'', [Finite 1, Finite (0::real)])]) \<and>
   identify_speaker cosine_distance [Finite 1, Finite 0, Finite 0]
      [(''alice'', [Finite 1, Finite 0])] DEFAULT_THRESHOLD = Inl ValueError \<and>
   identify_speaker cosine_distance [Finite 0, Finite 1] [] DEFAULT_THRESHOLD = Inr ''Unknown''"
proof -
  let ?reg = "[(''alice'', [Finite 1, Finite (0::real)])]"
  have u: "identify_speaker cosine_distance [Finite 0, Finite 1] ?reg DEFAULT_THRESHOLD
      = Inr ''Unknown''"
    by (simp add: identify_eval cosine_distance_def dot_def)
  have a: "identify_speaker cosine_distance [Finite 1, Finite 0] ?reg DEFAULT_THRESHOLD
      = Inr ''alice''"
    by (simp add: identify_eval)
  have v: "identify_speaker cosine_distance [Finite 1, Finite 0, Finite 0] ?reg DEFAULT_THRESHOLD
      = Inl ValueError"
    by (simp add: identify_eval)
  note th = identification_label_range[of cosine_distance "[Finite 1, Finite 0]" ?reg
      DEFAULT_THRESHOLD]
  from th a have r: "''alice'' = ''Unknown'' \<or> ''alice'' \<in> fst ` set ?reg" by blast
  have e: "identify_speaker cosine_distance [Finite 0, Finite 1] [] DEFAULT_THRESHOLD
      = Inr ''Unknown''"
    using identification_label_range[of cosine_distance "[Finite 0, Finite 1]" "[]"
        DEFAULT_THRESHOLD] by blast
  from u a r v e show ?thesis by (intro conjI)
qed


text \<open>Whether the profiles have the length of the embedding does not depend on their order.\<close>

lemma well_shaped_set: "set reg1 = set reg2 \<Longrightarrow> well_shaped v reg1 = well_shaped v reg2"
  by (simp add: well_shaped_def list_all_iff)

text \<open>
  C7 (determinism), as the code has it. Identification reads nothing but its
  arguments: no clock, no random source, no global state that changes. The registry
  is a dictionary, whose iteration order is the order of the directory listing. Two
  registries that hold the same profiles under the same names give the same result, a
  label or the ValueError, for the same embedding and the same threshold whenever
  they have the same iteration order or at most one profile is at the least distance
  from the embedding.
\<close>

theorem identification_order_independent:
  assumes "distinct (map fst registry_a)" and "distinct (map fst registry_b)"
    and "set registry_a = set registry_b"
    and "registry_a = registry_b \<or>
      (\<forall>p\<in>set registry_a. \<forall>q\<in>set registry_a.
         (\<forall>r\<in>set registry_a. np_le (cosine e (snd p)) (cosine e (snd r))) \<and>
         (\<forall>r\<in>set registry_a. np_le (cosine e (snd q)) (cosine e (snd r))) \<longrightarrow> p = q)"
  shows "identify_speaker cosine e registry_a threshold =
     identify_speaker cosine e registry_b threshold"
proof (cases "registry_a = registry_b")
  case True
  then show ?thesis by simp
next
  case False
  with assms(4) have one: "\<forall>p\<in>set registry_a. \<forall>q\<in>set registry_a.
         (\<forall>r\<in>set registry_a. np_le (cosine e (snd p)) (cosine e (snd r))) \<and>
         (\<forall>r\<in>set registry_a. np_le (cosine e (snd q)) (cosine e (snd r))) \<longrightarrow> p = q"
    by blast
  show ?thesis
  proof (cases "registry_a = []")
    case True
    with assms(3) show ?thesis by simp
  next
    case ne1: False
    with assms(3) have ne2: "registry_b \<noteq> []" by auto
    show ?thesis
    proof (cases "well_shaped e registry_a")
      case ws: False
      with well_shaped_set[OF assms(3)] have "\<not> well_shaped e registry_b" by simp
      with ws identify_speaker_shape_error[OF ne1 assms(1)]
        identify_speaker_shape_error[OF ne2 assms(2)] show ?thesis by simp
    next
      case ws1: True
      with well_shaped_set[OF assms(3)] have ws2: "well_shaped e registry_b" by simp
      show ?thesis
      proof (cases "\<exists>p\<in>set registry_a. is_nan (cosine e (snd p))")
        case True
        with assms(3) have "\<exists>p\<in>set registry_b. is_nan (cosine e (snd p))" by simp
        with True identify_speaker_nan[OF ne1 assms(1) ws1] identify_speaker_nan[OF ne2 assms(2) ws2]
        show ?thesis by simp
      next
        case False
        then have nn1: "\<forall>j<length registry_a. \<not> is_nan (cosine e (snd (registry_a ! j)))"
          by auto
        from False assms(3) have nn2: "\<forall>j<length registry_b. \<not> is_nan (cosine e (snd (registry_b ! j)))"
          by auto
        from identify_speaker_char[OF ne1 assms(1) ws1, of cosine threshold] nn1 obtain i where
          i: "i < length registry_a"
            "\<forall>j<length registry_a.
                np_le (cosine e (snd (registry_a ! i))) (cosine e (snd (registry_a ! j)))"
            "identify_speaker cosine e registry_a threshold =
               Inr (if np_less (cosine e (snd (registry_a ! i))) threshold
                    then fst (registry_a ! i) else ''Unknown'')"
          by blast
        from identify_speaker_char[OF ne2 assms(2) ws2, of cosine threshold] nn2 obtain k where
          k: "k < length registry_b"
            "\<forall>j<length registry_b.
                np_le (cosine e (snd (registry_b ! k))) (cosine e (snd (registry_b ! j)))"
            "identify_speaker cosine e registry_b threshold =
               Inr (if np_less (cosine e (snd (registry_b ! k))) threshold
                    then fst (registry_b ! k) else ''Unknown'')"
          by blast
        have pi: "registry_a ! i \<in> set registry_a" using i(1) by simp
        have qk: "registry_b ! k \<in> set registry_a" using k(1) assms(3) by simp
        have li: "\<forall>r\<in>set registry_a. np_le (cosine e (snd (registry_a ! i))) (cosine e (snd r))"
          using i(2) by (metis in_set_conv_nth)
        have "\<forall>r\<in>set registry_b. np_le (cosine e (snd (registry_b ! k))) (cosine e (snd r))"
          using k(2) by (metis in_set_conv_nth)
        then have lk: "\<forall>r\<in>set registry_a. np_le (cosine e (snd (registry_b ! k))) (cosine e (snd r))"
          using assms(3) by simp
        from one pi qk li lk have "registry_a ! i = registry_b ! k" by blast
        with i(3) k(3) show ?thesis by simp
      qed
    qed
  qed
qed

text \<open>
  Two registries with the same two profiles in the two orders, one profile nearer than
  the other: both runs return \<open>alice\<close>.
\<close>

theorem identification_order_independent_witness:
  "identify_speaker cosine_distance [Finite 1, Finite 0]
      [(''alice'', [Finite 1, Finite 0]), (''bob'', [Finite 0, Finite 1])] DEFAULT_THRESHOLD =
   identify_speaker cosine_distance [Finite 1, Finite 0]
      [(''bob'', [Finite 0, Finite 1]), (''alice'', [Finite 1, Finite 0])] DEFAULT_THRESHOLD \<and>
   identify_speaker cosine_distance [Finite 1, Finite 0]
      [(''bob'', [Finite 0, Finite 1]), (''alice'', [Finite 1, Finite 0])] DEFAULT_THRESHOLD =
     Inr ''alice''"
proof -
  let ?r1 = "[(''alice'', [Finite 1, Finite 0]), (''bob'', [Finite 0, Finite 1])]"
  let ?r2 = "[(''bob'', [Finite 0, Finite 1]), (''alice'', [Finite 1, Finite 0])]"
  let ?e = "[Finite 1, Finite 0]"
  have d1: "distinct (map fst ?r1)" by simp
  have d2: "distinct (map fst ?r2)" by simp
  have s: "set ?r1 = set ?r2" by auto
  have one: "?r1 = ?r2 \<or>
      (\<forall>p\<in>set ?r1. \<forall>q\<in>set ?r1.
         (\<forall>r\<in>set ?r1. np_le (cosine_distance ?e (snd p)) (cosine_distance ?e (snd r))) \<and>
         (\<forall>r\<in>set ?r1. np_le (cosine_distance ?e (snd q)) (cosine_distance ?e (snd r))) \<longrightarrow> p = q)"
    by (simp add: cosine_distance_same cosine_distance_orthogonal np_le_def)
  have "identify_speaker cosine_distance ?e ?r1 DEFAULT_THRESHOLD =
      identify_speaker cosine_distance ?e ?r2 DEFAULT_THRESHOLD"
    by (rule identification_order_independent[where registry_a = ?r1 and registry_b = ?r2
          and cosine = cosine_distance and e = ?e, OF d1 d2 s one])
  moreover have "identify_speaker cosine_distance ?e ?r2 DEFAULT_THRESHOLD = Inr ''alice''"
    by (simp add: identify_eval)
  ultimately show ?thesis by (intro conjI)
qed

text \<open>
  The claim as the specification states it fails on a tie: the same directory, with
  the same two profiles at distance 0 from the embedding, listed in the two orders,
  gives two registries with the same profiles under the same names, and identification
  returns \<open>alice\<close> on one and \<open>bob\<close> on the other.
\<close>

theorem same_mapping_two_labels_counterexample:
  "set [(''alice'', [Finite 1, Finite 0]), (''bob'', [Finite 1, Finite 0])] =
     set [(''bob'', [Finite 1, Finite 0]), (''alice'', [Finite 1, Finite (0::real)])] \<and>
   load_enrolled_speakers [''alice.npy'', ''bob.npy'']
       (Some [''bob.npy'' \<mapsto> [Finite 1, Finite 0], ''alice.npy'' \<mapsto> [Finite 1, Finite 0]]) =
     Inr [(''alice'', [Finite 1, Finite 0]), (''bob'', [Finite 1, Finite 0])] \<and>
   load_enrolled_speakers [''bob.npy'', ''alice.npy'']
       (Some [''bob.npy'' \<mapsto> [Finite 1, Finite 0], ''alice.npy'' \<mapsto> [Finite 1, Finite 0]]) =
     Inr [(''bob'', [Finite 1, Finite 0]), (''alice'', [Finite 1, Finite 0])] \<and>
   identify_speaker cosine_distance [Finite 1, Finite 0]
       [(''alice'', [Finite 1, Finite 0]), (''bob'', [Finite 1, Finite 0])] DEFAULT_THRESHOLD
     = Inr ''alice'' \<and>
   identify_speaker cosine_distance [Finite 1, Finite 0]
       [(''bob'', [Finite 1, Finite 0]), (''alice'', [Finite 1, Finite 0])] DEFAULT_THRESHOLD
     = Inr ''bob''"
proof (intro conjI)
  show "set [(''alice'', [Finite 1, Finite 0]), (''bob'', [Finite 1, Finite 0])] =
     set [(''bob'', [Finite 1, Finite 0]), (''alice'', [Finite 1, Finite (0::real)])]"
    by auto
qed (simp_all add: load_enrolled_speakers_def ends_with_def identify_eval)

section \<open>Real-time diarisation and transcription (process\_chunk and main)\<close>

text \<open>
  The diariser and the transcriber are parameters that either raise or return their
  answer.
\<close>

text \<open>
  A turn of the diariser, with its start and end in seconds from the start of the audio
  it was given. A time is the exact value of a float. The script multiplies a time by
  the sample rate in floating-point arithmetic: the product is the exact product
  rounded to a float. The rounding is a parameter \<open>round_double\<close> of the functions
  below. Two of its properties are used later: it is monotone, and it leaves the whole
  numbers up to 2 to the power 53 unchanged.
\<close>

record turn =
  turn_start :: real
  turn_end :: real

text \<open>One entry of \<open>results\<close>, which is also one printed line.\<close>

record transcript_segment =
  seg_speaker :: string
  seg_start :: real
  seg_end :: real
  seg_language :: string
  seg_text :: "nat list"

text \<open>\<open>int(x)\<close> on a float: truncation towards zero.\<close>

definition py_int :: "real \<Rightarrow> int" where
  "py_int x = (if 0 \<le> x then \<lfloor>x\<rfloor> else \<lceil>x\<rceil>)"

text \<open>
  \<open>xs[start:stop]\<close>: a negative bound counts from the end, and both bounds are
  clipped to the sequence; the slice is empty when the bounds cross.
\<close>

definition slice_bound :: "nat \<Rightarrow> int \<Rightarrow> nat" where
  "slice_bound n i = (if i < 0 then nat (max 0 (int n + i)) else min n (nat i))"

definition py_slice :: "'a list \<Rightarrow> int \<Rightarrow> int \<Rightarrow> 'a list" where
  "py_slice xs start stop =
     (let lo = slice_bound (length xs) start; hi = slice_bound (length xs) stop
      in take (hi - lo) (drop lo xs))"

text \<open>
  \<open>s.strip()\<close>: white space removed at both ends. The transcribed text is a list of
  Unicode code points, and white space is what \<open>str.isspace\<close> accepts.
\<close>

definition is_space :: "nat \<Rightarrow> bool" where
  "is_space c = (c \<in> set [9, 10, 11, 12, 13, 28, 29, 30, 31, 32, 133, 160, 5760,
     8192, 8193, 8194, 8195, 8196, 8197, 8198, 8199, 8200, 8201, 8202,
     8232, 8233, 8239, 8287, 12288])"

definition py_strip :: "nat list \<Rightarrow> nat list" where
  "py_strip s = rev (dropWhile is_space (rev (dropWhile is_space s)))"

text \<open>
  The loop over the turns in \<open>process_chunk\<close>. A turn whose slice of the audio holds
  fewer than \<open>sample_rate // 2\<close> samples is passed over. Every other turn is
  transcribed and appended to \<open>results\<close> (and printed). An exception of the
  transcriber is not caught: it ends the loop. The result is the list of segments
  appended up to then, and the exception if there was one.
\<close>

fun process_turns ::
  "(real \<Rightarrow> real) \<Rightarrow> ('a list \<Rightarrow> adapter_error + nat list \<times> string) \<Rightarrow> 'a list \<Rightarrow>
   nat \<Rightarrow> (turn \<times> string) list \<Rightarrow> transcript_segment list \<Rightarrow>
   transcript_segment list \<times> adapter_error option" where
  "process_turns round_double transcribe audio sample_rate [] results = (results, None)"
| "process_turns round_double transcribe audio sample_rate ((turn, speaker) # tracks) results =
     (let start = py_int (round_double (turn_start turn * real sample_rate));
          stop = py_int (round_double (turn_end turn * real sample_rate));
          segment = py_slice audio start stop
      in if length segment < sample_rate div 2
         then process_turns round_double transcribe audio sample_rate tracks results
         else (case transcribe segment of
                 Inl err \<Rightarrow> (results, Some err)
               | Inr (text, language) \<Rightarrow>
                   process_turns round_double transcribe audio sample_rate tracks
                     (results @ [\<lparr>seg_speaker = speaker, seg_start = turn_start turn,
                                  seg_end = turn_end turn, seg_language = language,
                                  seg_text = py_strip text\<rparr>])))"

text \<open>
  \<open>process_chunk\<close>: diarise the chunk, then run the loop. An exception of the
  diariser is not caught either. The chunk reaches the diariser through a temporary
  file, which is left out: the diariser is given the chunk.
\<close>

definition process_chunk ::
  "(real \<Rightarrow> real) \<Rightarrow> ('a list \<Rightarrow> adapter_error + (turn \<times> string) list) \<Rightarrow>
   ('a list \<Rightarrow> adapter_error + nat list \<times> string) \<Rightarrow> 'a list \<Rightarrow> nat \<Rightarrow>
   transcript_segment list \<times> adapter_error option" where
  "process_chunk round_double pipeline transcribe chunk sample_rate =
     (case pipeline chunk of
        Inl err \<Rightarrow> ([], Some err)
      | Inr diarization \<Rightarrow>
          process_turns round_double transcribe chunk sample_rate diarization [])"

text \<open>
  The loop of \<open>main\<close> on the frames the queue delivers. \<open>buffer\<close> is a list of
  arrays; the test multiplies the number of arrays by the length of the frame just
  read. The only exception \<open>main\<close> catches is the keyboard interrupt, so an exception
  that leaves \<open>process_chunk\<close> ends the run: the second component of the result is
  that exception, and the frames after it are never read.
\<close>

record 'a realtime_state =
  frame_buffer :: "'a list list"
  emitted :: "transcript_segment list"

fun realtime_loop ::
  "(real \<Rightarrow> real) \<Rightarrow> ('a list \<Rightarrow> adapter_error + (turn \<times> string) list) \<Rightarrow>
   ('a list \<Rightarrow> adapter_error + nat list \<times> string) \<Rightarrow> 'a list list \<Rightarrow>
   'a realtime_state \<Rightarrow> 'a realtime_state \<times> adapter_error option" where
  "realtime_loop round_double pipeline transcribe [] st = (st, None)"
| "realtime_loop round_double pipeline transcribe (chunk # q) st =
     (let buffer = frame_buffer st @ [chunk] in
      if SAMPLE_RATE * CHUNK_DURATION \<le> length buffer * length chunk
      then
        (let audio_chunk = take (SAMPLE_RATE * CHUNK_DURATION) (concat buffer) in
         case process_chunk round_double pipeline transcribe audio_chunk SAMPLE_RATE of
           (segments, Some err) \<Rightarrow>
             (st\<lparr>frame_buffer := buffer, emitted := emitted st @ segments\<rparr>, Some err)
         | (segments, None) \<Rightarrow>
             realtime_loop round_double pipeline transcribe q
               (st\<lparr>frame_buffer := [drop (SAMPLE_RATE * CHUNK_DURATION) (concat buffer)],
                   emitted := emitted st @ segments\<rparr>))
      else realtime_loop round_double pipeline transcribe q (st\<lparr>frame_buffer := buffer\<rparr>))"

definition realtime_main ::
  "(real \<Rightarrow> real) \<Rightarrow> ('a list \<Rightarrow> adapter_error + (turn \<times> string) list) \<Rightarrow>
   ('a list \<Rightarrow> adapter_error + nat list \<times> string) \<Rightarrow> 'a list list \<Rightarrow>
   'a realtime_state \<times> adapter_error option" where
  "realtime_main round_double pipeline transcribe q =
     realtime_loop round_double pipeline transcribe q \<lparr>frame_buffer = [], emitted = []\<rparr>"

section \<open>The file pipeline (process\_audio\_file)\<close>

text \<open>
  A sample of 16-bit PCM audio, the format in which the WAV reader returns the usual
  recording, is a 16-bit word read as a signed number. A file with more than one
  channel is a list of rows with one sample per channel.
\<close>

datatype wav_samples = Mono "16 word list" | MultiChannel "16 word list list"



text \<open>
  \<open>np.abs\<close> on a 16-bit array stays in 16 bits: the negation of -32768 wraps around
  to -32768.
\<close>

definition np_abs :: "16 word \<Rightarrow> 16 word" where
  "np_abs x = (if sint x < 0 then - x else x)"

text \<open>\<open>np.max\<close>: the greatest element as a signed number; ValueError on an empty array.\<close>

fun np_max :: "16 word list \<Rightarrow> py_error + 16 word" where
  "np_max [] = Inl ValueError"
| "np_max (x # xs) = Inr (fold (\<lambda>y m. if sint m < sint y then y else m) xs x)"

definition np_divide :: "real \<Rightarrow> real \<Rightarrow> np_float" where
  "np_divide x m =
     (if m = 0 then (if x = 0 then NaN else if 0 < x then PosInf else NegInf)
      else Finite (x / m))"

text \<open>
  The normalisation step \<open>audio.astype(np.float32) / np.max(np.abs(audio))\<close>. Every
  16-bit value is a float exactly, and the quotients are taken as real numbers.
\<close>

definition normalize :: "16 word list \<Rightarrow> py_error + np_float list" where
  "normalize audio =
     (case np_max (map np_abs audio) of
        Inl e \<Rightarrow> Inl e
      | Inr m \<Rightarrow> Inr (map (\<lambda>x. np_divide (real_of_int (sint x)) (real_of_int (sint m))) audio))"

text \<open>\<open>audio[:, 0]\<close> when the array has more than one dimension.\<close>

definition first_channel :: "wav_samples \<Rightarrow> py_error + 16 word list" where
  "first_channel d =
     (case d of
        Mono audio \<Rightarrow> Inr audio
      | MultiChannel rows \<Rightarrow> collect (map (\<lambda>row. py_index row 0) rows))"



section \<open>Turns, durations and sample counts\<close>

















subsection \<open>Claims on turns and segments\<close>






text \<open>
  The slice \<open>audio[start:end]\<close> that \<open>process_chunk\<close> cuts for a turn, and the test
  that keeps the turn.
\<close>

definition turn_segment :: "(real \<Rightarrow> real) \<Rightarrow> 'a list \<Rightarrow> nat \<Rightarrow> turn \<Rightarrow> 'a list" where
  "turn_segment round_double audio sample_rate turn =
     py_slice audio (py_int (round_double (turn_start turn * real sample_rate)))
       (py_int (round_double (turn_end turn * real sample_rate)))"

definition turn_kept :: "(real \<Rightarrow> real) \<Rightarrow> 'a list \<Rightarrow> nat \<Rightarrow> turn \<Rightarrow> bool" where
  "turn_kept round_double audio sample_rate turn =
     (\<not> length (turn_segment round_double audio sample_rate turn) < sample_rate div 2)"

text \<open>
  A segment is built from a track of the diarisation when it has the start and the end
  of the turn, the label of the track, and the language and the stripped text that the
  transcriber returns for the slice of the turn.
\<close>

definition built_from ::
  "(real \<Rightarrow> real) \<Rightarrow> ('a list \<Rightarrow> adapter_error + nat list \<times> string) \<Rightarrow> 'a list \<Rightarrow> nat \<Rightarrow>
   turn \<times> string \<Rightarrow> transcript_segment \<Rightarrow> bool" where
  "built_from round_double transcribe audio sample_rate track seg =
     (seg_start seg = turn_start (fst track) \<and> seg_end seg = turn_end (fst track) \<and>
      seg_speaker seg = snd track \<and>
      (case transcribe (turn_segment round_double audio sample_rate (fst track)) of
         Inl err \<Rightarrow> False
       | Inr (tx, language) \<Rightarrow> seg_language seg = language \<and> seg_text seg = py_strip tx))"

text \<open>
  The loop over the turns appends one segment for every kept turn, in the order of the
  diarisation, until the transcriber raises; the segment of a turn is built from that
  turn.
\<close>

lemma process_turns_tracks:
  assumes "process_turns round_double transcribe audio sample_rate tracks results =
      (segments, err)"
  shows "\<exists>new. segments = results @ new \<and>
     length new \<le> length (filter (\<lambda>track. turn_kept round_double audio sample_rate (fst track)) tracks) \<and>
     (err = None \<longrightarrow>
        length new = length (filter (\<lambda>track. turn_kept round_double audio sample_rate (fst track)) tracks)) \<and>
     (\<forall>e. err = Some e \<longrightarrow>
        length new < length (filter (\<lambda>track. turn_kept round_double audio sample_rate (fst track)) tracks) \<and>
        transcribe (turn_segment round_double audio sample_rate
          (fst (filter (\<lambda>track. turn_kept round_double audio sample_rate (fst track)) tracks
                 ! length new))) = Inl e) \<and>
     (\<forall>i<length new. built_from round_double transcribe audio sample_rate
        (filter (\<lambda>track. turn_kept round_double audio sample_rate (fst track)) tracks ! i)
        (new ! i))"
  using assms
proof (induction tracks arbitrary: results)
  case Nil
  then show ?case by simp
next
  case (Cons track tracks)
  obtain turn speaker where tr: "track = (turn, speaker)" by (cases track)
  let ?K = "\<lambda>track. turn_kept round_double audio sample_rate (fst track)"
  let ?slice = "turn_segment round_double audio sample_rate turn"
  show ?case
  proof (cases "turn_kept round_double audio sample_rate turn")
    case False
    then have "process_turns round_double transcribe audio sample_rate tracks results =
        (segments, err)"
      using Cons.prems by (simp add: tr turn_kept_def turn_segment_def Let_def)
    from Cons.IH[OF this] show ?thesis using False by (simp add: tr)
  next
    case True
    then have k: "filter ?K (track # tracks) = (turn, speaker) # filter ?K tracks"
      by (simp add: tr)
    show ?thesis
    proof (cases "transcribe ?slice")
      case (Inl e)
      then have "segments = results" "err = Some e"
        using Cons.prems True by (simp_all add: tr turn_kept_def turn_segment_def Let_def)
      then show ?thesis unfolding k using Inl by simp
    next
      case (Inr r)
      obtain tx lang where r: "r = (tx, lang)" by (cases r)
      let ?seg = "\<lparr>seg_speaker = speaker, seg_start = turn_start turn,
          seg_end = turn_end turn, seg_language = lang, seg_text = py_strip tx\<rparr>"
      have "process_turns round_double transcribe audio sample_rate tracks (results @ [?seg]) =
          (segments, err)"
        using Cons.prems True Inr
        by (simp add: tr r turn_kept_def turn_segment_def Let_def)
      from Cons.IH[OF this] obtain new where
        n1: "segments = (results @ [?seg]) @ new"
        and n2: "length new \<le> length (filter ?K tracks)"
        and n3: "err = None \<longrightarrow> length new = length (filter ?K tracks)"
        and n4: "\<forall>e. err = Some e \<longrightarrow> length new < length (filter ?K tracks) \<and>
          transcribe (turn_segment round_double audio sample_rate
            (fst (filter ?K tracks ! length new))) = Inl e"
        and n5: "\<forall>i<length new. built_from round_double transcribe audio sample_rate
          (filter ?K tracks ! i) (new ! i)"
        by blast
      have b: "built_from round_double transcribe audio sample_rate (turn, speaker) ?seg"
        using Inr by (simp add: built_from_def r)
      have n5': "\<forall>i<length (?seg # new). built_from round_double transcribe audio sample_rate
          (((turn, speaker) # filter ?K tracks) ! i) ((?seg # new) ! i)"
      proof (intro allI impI)
        fix i assume "i < length (?seg # new)"
        then show "built_from round_double transcribe audio sample_rate
          (((turn, speaker) # filter ?K tracks) ! i) ((?seg # new) ! i)"
          using b n5 by (cases i) simp_all
      qed
      show ?thesis
        apply (rule exI[where x = "?seg # new"])
        unfolding k
        using n1 n2 n3 n4 n5' by simp
    qed
  qed
qed

text \<open>
  C6 (segment times), as the code has it. \<open>process_chunk\<close> is given the chunk and the
  sample rate and nothing else: no time stamp of the chunk exists in the code. The
  segments it emits are built, in order, from the kept turns of the chunk, one segment
  for each kept turn up to the first failure of the transcriber, and all of them when
  no call fails. The segment number i carries the start and the end of the kept turn
  number i unchanged, as offsets into the chunk, together with the label of that turn
  and with the language and the stripped text that the transcriber returns for the
  slice of that turn.
\<close>

theorem segment_times_are_turn_offsets:
  assumes "pipeline chunk = Inr diarization"
    and "process_chunk round_double pipeline transcribe chunk sample_rate = (segments, err)"
    and "kept = filter (\<lambda>track. turn_kept round_double chunk sample_rate (fst track)) diarization"
  shows "length segments \<le> length kept \<and>
     (err = None \<longrightarrow> length segments = length kept) \<and>
     (\<forall>e. err = Some e \<longrightarrow> length segments < length kept \<and>
        transcribe (turn_segment round_double chunk sample_rate
          (fst (kept ! length segments))) = Inl e) \<and>
     (\<forall>i<length segments.
        seg_start (segments ! i) = turn_start (fst (kept ! i)) \<and>
        seg_end (segments ! i) = turn_end (fst (kept ! i)) \<and>
        seg_speaker (segments ! i) = snd (kept ! i) \<and>
        (case transcribe (turn_segment round_double chunk sample_rate (fst (kept ! i))) of
           Inl e \<Rightarrow> False
         | Inr (tx, language) \<Rightarrow>
             seg_language (segments ! i) = language \<and> seg_text (segments ! i) = py_strip tx))"
proof -
  from assms(1,2) have "process_turns round_double transcribe chunk sample_rate diarization [] =
      (segments, err)"
    by (simp add: process_chunk_def)
  from process_turns_tracks[OF this] show ?thesis
    unfolding assms(3) by (auto simp: built_from_def)
qed

text \<open>
  One chunk of five seconds with three turns: from 0.5 s to 1.5 s, from 2 s to 2.25 s,
  which is passed over, and from 3 s to 4.5 s. The transcriber answers by the length of
  the slice it is given. The two segments have the times and the labels of the first
  and of the third turn.
\<close>

theorem segment_times_are_turn_offsets_witness:
  "process_chunk (\<lambda>x. x)
      (\<lambda>c. Inr [(\<lparr>turn_start = 1 / 2, turn_end = 3 / 2\<rparr>, ''SPEAKER_00''),
                (\<lparr>turn_start = 2, turn_end = 9 / 4\<rparr>, ''SPEAKER_01''),
                (\<lparr>turn_start = 3, turn_end = 9 / 2\<rparr>, ''SPEAKER_02'')])
      (\<lambda>s. Inr (if length s = 16000 then [32, 97] else [98, 32], ''en''))
      (replicate 80000 (0::real)) SAMPLE_RATE =
     ([\<lparr>seg_speaker = ''SPEAKER_00'', seg_start = 1 / 2, seg_end = 3 / 2, seg_language = ''en'',
        seg_text = [97]\<rparr>,
       \<lparr>seg_speaker = ''SPEAKER_02'', seg_start = 3, seg_end = 9 / 2, seg_language = ''en'',
        seg_text = [98]\<rparr>], None) \<and>
   filter (\<lambda>track. turn_kept (\<lambda>x. x) (replicate 80000 (0::real)) SAMPLE_RATE (fst track))
      [(\<lparr>turn_start = 1 / 2, turn_end = 3 / 2\<rparr>, ''SPEAKER_00''),
       (\<lparr>turn_start = 2, turn_end = 9 / 4\<rparr>, ''SPEAKER_01''),
       (\<lparr>turn_start = 3, turn_end = 9 / 2\<rparr>, ''SPEAKER_02'')] =
     [(\<lparr>turn_start = 1 / 2, turn_end = 3 / 2\<rparr>, ''SPEAKER_00''),
      (\<lparr>turn_start = 3, turn_end = 9 / 2\<rparr>, ''SPEAKER_02'')] \<and>
   seg_start (
     [\<lparr>seg_speaker = ''SPEAKER_00'', seg_start = 1 / 2, seg_end = 3 / 2, seg_language = ''en'',
        seg_text = [97]\<rparr>,
      \<lparr>seg_speaker = ''SPEAKER_02'', seg_start = 3, seg_end = 9 / 2, seg_language = ''en'',
        seg_text = [98]\<rparr>] ! 1) =
   turn_start (fst (
     [(\<lparr>turn_start = 1 / 2, turn_end = 3 / 2\<rparr>, ''SPEAKER_00''),
      (\<lparr>turn_start = 3, turn_end = 9 / 2\<rparr>, ''SPEAKER_02'')] ! 1)) \<and>
   seg_end (
     [\<lparr>seg_speaker = ''SPEAKER_00'', seg_start = 1 / 2, seg_end = 3 / 2, seg_language = ''en'',
        seg_text = [97]\<rparr>,
      \<lparr>seg_speaker = ''SPEAKER_02'', seg_start = 3, seg_end = 9 / 2, seg_language = ''en'',
        seg_text = [98]\<rparr>] ! 1) =
   turn_end (fst (
     [(\<lparr>turn_start = 1 / 2, turn_end = 3 / 2\<rparr>, ''SPEAKER_00''),
      (\<lparr>turn_start = 3, turn_end = 9 / 2\<rparr>, ''SPEAKER_02'')] ! 1)) \<and>
   seg_speaker (
     [\<lparr>seg_speaker = ''SPEAKER_00'', seg_start = 1 / 2, seg_end = 3 / 2, seg_language = ''en'',
        seg_text = [97]\<rparr>,
      \<lparr>seg_speaker = ''SPEAKER_02'', seg_start = 3, seg_end = 9 / 2, seg_language = ''en'',
        seg_text = [98]\<rparr>] ! 1) =
   snd (
     [(\<lparr>turn_start = 1 / 2, turn_end = 3 / 2\<rparr>, ''SPEAKER_00''),
      (\<lparr>turn_start = 3, turn_end = 9 / 2\<rparr>, ''SPEAKER_02'')] ! 1)"
proof -
  let ?D = "[(\<lparr>turn_start = 1 / 2, turn_end = 3 / 2\<rparr>, ''SPEAKER_00''),
             (\<lparr>turn_start = 2, turn_end = 9 / 4\<rparr>, ''SPEAKER_01''),
             (\<lparr>turn_start = 3, turn_end = 9 / 2\<rparr>, ''SPEAKER_02'')]"
  let ?P = "\<lambda>c::real list. Inr ?D :: adapter_error + (turn \<times> string) list"
  let ?T = "\<lambda>s::real list. Inr (if length s = 16000 then [32, 97] else [98, 32], ''en'')
      :: adapter_error + nat list \<times> string"
  let ?chunk = "replicate 80000 (0::real)"
  let ?segs = "[\<lparr>seg_speaker = ''SPEAKER_00'', seg_start = 1 / 2, seg_end = 3 / 2,
        seg_language = ''en'', seg_text = [97]\<rparr>,
      \<lparr>seg_speaker = ''SPEAKER_02'', seg_start = 3, seg_end = 9 / 2, seg_language = ''en'',
        seg_text = [98]\<rparr>]"
  let ?kept = "[(\<lparr>turn_start = 1 / 2, turn_end = 3 / 2\<rparr>, ''SPEAKER_00''),
      (\<lparr>turn_start = 3, turn_end = 9 / 2\<rparr>, ''SPEAKER_02'')]"
  have run: "process_chunk (\<lambda>x. x) ?P ?T ?chunk SAMPLE_RATE = (?segs, None)"
    by (simp add: process_chunk_def py_int_def SAMPLE_RATE_def py_slice_def slice_bound_def
        py_strip_def is_space_def)
  have kept: "?kept = filter (\<lambda>track. turn_kept (\<lambda>x. x) ?chunk SAMPLE_RATE (fst track)) ?D"
    by (simp add: turn_kept_def turn_segment_def py_int_def SAMPLE_RATE_def py_slice_def
        slice_bound_def)
  have p: "?P ?chunk = Inr ?D" by simp
  note th = segment_times_are_turn_offsets[OF p run kept]
  have i: "(1::nat) < length ?segs" by simp
  from th have "\<forall>i<length ?segs.
        seg_start (?segs ! i) = turn_start (fst (?kept ! i)) \<and>
        seg_end (?segs ! i) = turn_end (fst (?kept ! i)) \<and>
        seg_speaker (?segs ! i) = snd (?kept ! i) \<and>
        (case ?T (turn_segment (\<lambda>x. x) ?chunk SAMPLE_RATE (fst (?kept ! i))) of
           Inl e \<Rightarrow> False
         | Inr (tx, language) \<Rightarrow>
             seg_language (?segs ! i) = language \<and> seg_text (?segs ! i) = py_strip tx)"
    by (elim conjE)
  from this[rule_format, OF i] run kept[symmetric] show ?thesis by (intro conjI) (elim conjE, assumption)+
qed

text \<open>
  The claim as the specification states it fails: in a run over two chunks, each with a
  turn from 1 s to 2 s, the segment of the second chunk, which begins
  \<open>CHUNK_DURATION\<close> seconds into the capture, has the times 1 and 2, not 6 and 7.
\<close>

theorem absolute_time_counterexample:
  "map seg_start (emitted (fst (realtime_main (\<lambda>x. x)
      (\<lambda>c. Inr [(\<lparr>turn_start = 1, turn_end = 2\<rparr>, ''SPEAKER_00'')])
      (\<lambda>s. Inr ([32, 104, 105], ''en'')) [replicate 80000 (0::real), replicate 80000 0]))) = [1, 1] \<and>
   map seg_end (emitted (fst (realtime_main (\<lambda>x. x)
      (\<lambda>c. Inr [(\<lparr>turn_start = 1, turn_end = 2\<rparr>, ''SPEAKER_00'')])
      (\<lambda>s. Inr ([32, 104, 105], ''en'')) [replicate 80000 (0::real), replicate 80000 0]))) = [2, 2] \<and>
   (1::real) \<noteq> real CHUNK_DURATION + 1 \<and> (2::real) \<noteq> real CHUNK_DURATION + 2"
  by (simp add: realtime_main_def process_chunk_def py_int_def SAMPLE_RATE_def
      CHUNK_DURATION_def py_slice_def slice_bound_def py_strip_def is_space_def)

section \<open>Failures of the external calls\<close>








text \<open>
  In the real-time script nothing catches an exception of the diariser or of the
  transcriber: \<open>process_chunk\<close> passes it on, and the loop of \<open>main\<close> ends with
  it, whatever frames are still to come.
\<close>

lemma process_chunk_diarizer_error:
  "pipeline chunk = Inl err \<Longrightarrow>
   process_chunk round_double pipeline transcribe chunk sr = ([], Some err)"
  by (simp add: process_chunk_def)

lemma realtime_loop_error_ends_run:
  assumes "SAMPLE_RATE * CHUNK_DURATION \<le> length (frame_buffer st @ [chunk]) * length chunk"
    and "process_chunk round_double pipeline transcribe
           (take (SAMPLE_RATE * CHUNK_DURATION) (concat (frame_buffer st @ [chunk]))) SAMPLE_RATE
         = (segments, Some err)"
  shows "realtime_loop round_double pipeline transcribe (chunk # q) st =
     (st\<lparr>frame_buffer := frame_buffer st @ [chunk], emitted := emitted st @ segments\<rparr>, Some err)"
  using assms by (simp add: Let_def)

subsection \<open>Claim on failures\<close>




section \<open>Normalisation of the file audio\<close>

text \<open>
  A 16-bit sample lies between -32768 and 32767, and -32768 is the one value whose
  negation does not fit: for every other value \<open>np_abs\<close> is the absolute value.
\<close>

lemma sint_int16_range: "- 32768 \<le> sint (x :: 16 word) \<and> sint x < 32768"
  using sint_ge[of x] sint_lt[of x] by simp

lemma sint_min_int16:
  assumes "sint (x :: 16 word) = - 32768"
  shows "x = - 32768"
proof -
  have "x = word_of_int (sint x)" by simp
  also have "\<dots> = word_of_int (- 32768)" by (simp only: assms)
  finally show ?thesis by simp
qed

lemma sint_np_abs:
  assumes "x \<noteq> - 32768"
  shows "sint (np_abs x) = \<bar>sint x\<bar>"
proof (cases "sint x < 0")
  case False
  then show ?thesis by (simp add: np_abs_def)
next
  case True
  have "sint x \<noteq> - 32768" using assms sint_min_int16 by blast
  with sint_int16_range[of x] True have r: "- (2 ^ 15) \<le> - sint x" "- sint x < 2 ^ 15"
    by simp_all
  have "sint (- x) = signed_take_bit 15 (- sint x)"
    by (simp add: sint_word_minus)
  also have "\<dots> = - sint x"
    using r by (rule signed_take_bit_int_eq_self)
  finally show ?thesis using True by (simp add: np_abs_def)
qed

text \<open>The maximum is an element of the array and bounds every element.\<close>

lemma fold_max_spec:
  "fold (\<lambda>y m. if sint m < sint y then y else m) xs (x :: 16 word) \<in> set (x # xs) \<and>
   (\<forall>y\<in>set (x # xs). sint y \<le> sint (fold (\<lambda>y m. if sint m < sint y then y else m) xs x))"
proof (induction xs arbitrary: x)
  case Nil
  then show ?case by simp
next
  case (Cons a xs)
  show ?case
  proof (cases "sint x < sint a")
    case True
    with Cons[of a] show ?thesis by auto
  next
    case False
    with Cons[of x] show ?thesis by auto
  qed
qed

lemma np_max_spec:
  assumes "xs \<noteq> []"
  shows "\<exists>m. np_max xs = Inr m \<and> m \<in> set xs \<and> (\<forall>y\<in>set xs. sint y \<le> sint m)"
proof -
  from assms obtain x r where "xs = x # r" by (cases xs) auto
  with fold_max_spec[of r x] show ?thesis by simp
qed

text \<open>
  When the array that is normalised holds no sample -32768 and some sample that is not
  zero, the divisor is positive and every exact quotient is a number between -1 and 1.
  The array is the first channel of the file, and the quotients of the code are the
  exact ones rounded to 32-bit floats.
\<close>

lemma normalize_in_range:
  assumes nomin: "\<forall>x\<in>set audio. x \<noteq> - 32768" and nonzero: "\<exists>x\<in>set audio. x \<noteq> 0"
  shows "\<exists>m out. np_max (map np_abs audio) = Inr m \<and> 0 < sint m \<and>
     normalize audio = Inr out \<and> length out = length audio \<and>
     (\<forall>y\<in>set out. \<exists>r. y = Finite r \<and> - 1 \<le> r \<and> r \<le> 1)"
proof -
  from nonzero have ne: "map np_abs audio \<noteq> []" by auto
  from np_max_spec[OF ne] obtain m where
    m: "np_max (map np_abs audio) = Inr m" "m \<in> set (map np_abs audio)"
      "\<forall>y\<in>set (map np_abs audio). sint y \<le> sint m"
    by blast
  have bound: "\<bar>sint x\<bar> \<le> sint m" if "x \<in> set audio" for x
  proof -
    from that nomin have "sint (np_abs x) = \<bar>sint x\<bar>" by (simp add: sint_np_abs)
    moreover from that m(3) have "sint (np_abs x) \<le> sint m" by simp
    ultimately show ?thesis by simp
  qed
  from nonzero obtain z where z: "z \<in> set audio" "z \<noteq> 0" by blast
  have "sint z \<noteq> 0"
  proof
    assume "sint z = 0"
    then have "word_of_int (sint z) = (word_of_int 0 :: 16 word)" by simp
    then show False using z(2) by simp
  qed
  with bound[OF z(1)] have pos: "0 < sint m" by simp
  let ?out = "map (\<lambda>x. np_divide (real_of_int (sint x)) (real_of_int (sint m))) audio"
  have n: "normalize audio = Inr ?out" by (simp add: normalize_def m(1))
  have "\<exists>r. y = Finite r \<and> - 1 \<le> r \<and> r \<le> 1" if "y \<in> set ?out" for y
  proof -
    from that obtain x where x: "x \<in> set audio"
      "y = np_divide (real_of_int (sint x)) (real_of_int (sint m))" by auto
    have mp: "0 < real_of_int (sint m)" using pos by (simp only: of_int_0_less_iff)
    have "\<bar>real_of_int (sint x)\<bar> \<le> real_of_int (sint m)"
      using bound[OF x(1)] by (metis of_int_abs of_int_le_iff)
    then have "- 1 \<le> real_of_int (sint x) / real_of_int (sint m)"
      and "real_of_int (sint x) / real_of_int (sint m) \<le> 1"
      using mp by (simp_all add: pos_le_divide_eq pos_divide_le_eq abs_le_iff del: of_int_sint)
    moreover have "y = Finite (real_of_int (sint x) / real_of_int (sint m))"
      using x(2) mp by (simp add: np_divide_def del: of_int_sint)
    ultimately show ?thesis by blast
  qed
  with m(1) pos n show ?thesis by auto
qed

text \<open>
  A file with two channels whose first channel is silent is not all zero, and the
  array that is normalised is: the divisor is 0 and every quotient is not-a-number.
\<close>

lemma normalize_silent_first_channel:
  "first_channel (MultiChannel [[0, 5], [0, 7]]) = Inr [0, 0] \<and>
   np_max (map np_abs [0, 0]) = Inr 0 \<and>
   normalize [0, 0] = Inr [NaN, NaN]"
  by (simp add: first_channel_def py_index_def normalize_def np_abs_def np_divide_def)

subsection \<open>Claim on normalisation\<close>

text \<open>
  C10 (normalisation). The claim is that for every file whose samples are not all zero
  the divisor is not zero and every normalised sample lies between -1 and 1. The code
  takes the absolute value in 16 bits, before the conversion to float, and departs
  from the claim at the sample -32768: \<open>np_abs\<close> leaves -32768 as it is, the
  maximum is then taken over the remaining samples, and for the samples -32768, 100
  the divisor is 100 and the first normalised sample is -327.68; for the samples
  -32768, 0 the divisor is 0 although the file is not silent, and the division gives
  minus infinity and not-a-number.
\<close>

theorem normalize_int16_minimum:
  "normalize [- 32768, 100] = Inr [Finite (- 8192 / 25), Finite 1] \<and>
   np_max (map np_abs [- 32768, 0]) = Inr 0 \<and>
   normalize [- 32768, 0] = Inr [NegInf, NaN] \<and>
   np_abs (- 32768) = - 32768"
  by (simp add: normalize_def np_abs_def np_divide_def)

end
